theory Spec2Isabelle
  imports Complex_Main "HOL-Library.AList"
begin

section \<open>Python values shared by the model\<close>

text \<open>
  The exceptions that the functions of \<^verbatim>\<open>main.py\<close> raise themselves or let through.
  All of them are subclasses of Python's \<^verbatim>\<open>Exception\<close>.  The two formatted
  \<^verbatim>\<open>RuntimeError\<close> messages keep their arguments instead of the formatted text.
\<close>

datatype runtime_msg =
    Cant_create "(string \<times> string) list" string
  | Cant_delete string string
  | Something_went_wrong

datatype exn =
    RuntimeError runtime_msg
  | IndexError
  | ValueError
  | KeyError
  | CalledProcessError int
  | TimeoutExpired
  | FileNotFoundError
  | OtherError string

datatype 'a outcome = Returns 'a | Raises exn

section \<open>The regular expression of the output parser\<close>

text \<open>
  Strings are lists of code points below 256.  In that range \<^verbatim>\<open>\d\<close> matches exactly
  the ten ASCII digits.
\<close>

definition is_digit :: "char \<Rightarrow> bool" where
  "is_digit c = (48 \<le> (of_char c :: nat) \<and> (of_char c :: nat) \<le> 57)"

text \<open>
  The fragment of Python's \<^verbatim>\<open>re\<close> syntax that the pattern uses: a literal, \<^verbatim>\<open>\d+\<close>,
  concatenation, the greedy \<^verbatim>\<open>(?:r)?\<close> and a capturing group.  Groups are numbered by
  their position in \<^verbatim>\<open>m.groups()\<close>, from 0.
\<close>

datatype regex = Lit string | Digits | Cat regex regex | Opt regex | Group nat regex

text \<open>
  \<^verbatim>\<open>\d+\<close> is greedy: after one digit it first tries to take more and only then stops.
  The result lists the remaining input of every way to match, in the order in which a
  backtracking matcher tries them.
\<close>

fun digit_splits :: "string \<Rightarrow> string list" where
  "digit_splits [] = []"
| "digit_splits (c # cs) = (if is_digit c then digit_splits cs @ [cs] else [])"

type_synonym mstate = "string option list \<times> string"

text \<open>
  A matching state is the groups captured so far and the input that is left.
  \<open>match_all r st\<close> lists every state in which a match of \<open>r\<close> from \<open>st\<close> can end, in
  backtracking order: the head of the list is the match that Python reports.
\<close>

fun match_all :: "regex \<Rightarrow> mstate \<Rightarrow> mstate list" where
  "match_all (Lit l) (caps, s) =
     (if take (length l) s = l then [(caps, drop (length l) s)] else [])"
| "match_all Digits (caps, s) = map (\<lambda>s'. (caps, s')) (digit_splits s)"
| "match_all (Cat r1 r2) st = concat (map (match_all r2) (match_all r1 st))"
| "match_all (Opt r) st = match_all r st @ [st]"
| "match_all (Group i r) (caps, s) =
     map (\<lambda>(caps', s'). (caps'[i := Some (take (length s - length s') s)], s'))
       (match_all r (caps, s))"

text \<open>\<^verbatim>\<open>regex.match(line)\<close>: anchored at the start of the line only; \<^verbatim>\<open>m.groups()\<close>.\<close>

definition re_match :: "regex \<Rightarrow> nat \<Rightarrow> string \<Rightarrow> string option list option" where
  "re_match r n s =
     (case match_all r (replicate n None, s) of
        [] \<Rightarrow> None
      | (caps, _) # _ \<Rightarrow> Some caps)"

fun seq :: "regex list \<Rightarrow> regex" where
  "seq [] = Lit []"
| "seq [r] = r"
| "seq (r # rs) = Cat r (seq rs)"

text \<open>\<^verbatim>\<open>(\d+\.\d+)\<close> as group \<open>i\<close>.\<close>

definition decimal :: "nat \<Rightarrow> regex" where
  "decimal i = Group i (seq [Digits, Lit ''.'', Digits])"

text \<open>The pattern of \<^verbatim>\<open>parse_pgbench_initialize_output\<close>, line by line.\<close>

definition regex :: regex where
  "regex = seq
     [Lit ''done in '', decimal 0, Lit '' s '',
      Lit ''('',
      Opt (seq [Lit ''drop tables '', decimal 1, Lit '' s'']), Opt (Lit '', ''),
      Opt (seq [Lit ''create tables '', decimal 2, Lit '' s'']), Opt (Lit '', ''),
      Opt (seq [Lit ''server-side generate '', decimal 3, Lit '' s'']), Opt (Lit '', ''),
      Opt (seq [Lit ''vacuum '', decimal 4, Lit '' s'']), Opt (Lit '', ''),
      Opt (seq [Lit ''primary keys '', decimal 5, Lit '' s'']), Opt (Lit '', ''),
      Lit '').'']"

section \<open>The output parser\<close>

text \<open>
  \<^verbatim>\<open>str.splitlines()\<close>: a line ends at \<^verbatim>\<open>\r\n\<close>, \<^verbatim>\<open>\n\<close>, \<^verbatim>\<open>\r\<close>, \<^verbatim>\<open>\v\<close>, \<^verbatim>\<open>\f\<close>,
  \<^verbatim>\<open>\x1c\<close>, \<^verbatim>\<open>\x1d\<close>, \<^verbatim>\<open>\x1e\<close> or \<^verbatim>\<open>\x85\<close> (the boundaries below code point 256);
  the terminators are dropped and a terminator at the very end opens no further line.
\<close>

definition is_linebreak :: "char \<Rightarrow> bool" where
  "is_linebreak c = (of_char c \<in> {10, 11, 12, 13, 28, 29, 30, 133 :: nat})"

fun splitlines_from :: "string \<Rightarrow> string \<Rightarrow> string list" where
  "splitlines_from cur [] = (if cur = [] then [] else [cur])"
| "splitlines_from cur [c] = (if is_linebreak c then [cur] else [cur @ [c]])"
| "splitlines_from cur (c # d # cs) =
     (if of_char c = (13 :: nat) \<and> of_char d = (10 :: nat) then cur # splitlines_from [] cs
      else if is_linebreak c then cur # splitlines_from [] (d # cs)
      else splitlines_from (cur @ [c]) (d # cs))"

definition splitlines :: "string \<Rightarrow> string list" where
  "splitlines s = splitlines_from [] s"

text \<open>
  \<^verbatim>\<open>float(v)\<close> on a string of the form \<^verbatim>\<open>\d+\.\d+\<close>, the only strings the parser
  converts: the model keeps the exact decimal value as a rational number; the rounding
  to a binary double is not part of the model.
\<close>

definition digit_val :: "char \<Rightarrow> nat" where
  "digit_val c = of_char c - 48"

definition nat_of_digits :: "string \<Rightarrow> nat" where
  "nat_of_digits ds = foldl (\<lambda>n c. 10 * n + digit_val c) 0 ds"

definition float :: "string \<Rightarrow> rat" where
  "float v =
     (let ip = takeWhile (\<lambda>c. c \<noteq> CHR ''.'') v;
          fp = drop (Suc (length ip)) v
      in of_nat (nat_of_digits ip) + of_nat (nat_of_digits fp) / 10 ^ length fp)"

text \<open>
  The tuple assignment of the parser: the list of converted values is unpacked into six
  names, and the dictionary is built from them; a list of any other length raises
  \<^verbatim>\<open>ValueError\<close>.
\<close>

fun unpack_timings :: "rat list \<Rightarrow> exn + (string \<rightharpoonup> rat)" where
  "unpack_timings [total', drop_tables, create_tables, server_side_generate, vacuum,
                   primary_keys] =
     Inr [''total'' \<mapsto> total',
          ''drop_tables'' \<mapsto> drop_tables,
          ''create_tables'' \<mapsto> create_tables,
          ''server_side_generate'' \<mapsto> server_side_generate,
          ''vacuum'' \<mapsto> vacuum,
          ''primary_keys'' \<mapsto> primary_keys]"
| "unpack_timings _ = Inl ValueError"

text \<open>
  The parser.  The first component of the result is what the call prints.  The list
  comprehension converts the groups that are not \<^verbatim>\<open>None\<close>.
\<close>

definition parse_pgbench_initialize_output ::
  "string \<Rightarrow> string list \<times> (exn + (string \<rightharpoonup> rat))" where
  "parse_pgbench_initialize_output output =
     (case splitlines output of
        [] \<Rightarrow> ([], Inl IndexError)
      | l # ls \<Rightarrow>
         (case re_match regex 6 (last (l # ls)) of
            None \<Rightarrow> ([output], Inl (RuntimeError Something_went_wrong))
          | Some groups \<Rightarrow>
             ([], unpack_timings
                    (map (\<lambda>v. float (the v)) (filter (\<lambda>v. v \<noteq> None) groups)))))"

section \<open>The remote API\<close>

text \<open>
  The body of a successful answer to \<^verbatim>\<open>POST /projects\<close>: \<^verbatim>\<open>project["id"]\<close> and
  \<^verbatim>\<open>project["roles"]\<close>, each role with its \<^verbatim>\<open>name\<close> and \<^verbatim>\<open>dsn\<close>.
\<close>

record role =
  r_name :: string
  r_dsn :: string

record project =
  p_id :: string
  p_roles :: "role list"

text \<open>An HTTP response: \<^verbatim>\<open>response.ok\<close>, \<^verbatim>\<open>response.text\<close>, \<^verbatim>\<open>response.json()\<close>.\<close>

record 'j response =
  resp_ok :: bool
  resp_text :: string
  resp_json :: 'j

type_synonym settings = "(string \<times> string) list"

text \<open>
  What the outside world does during one call of \<^verbatim>\<open>pgbench\<close>: the result of each of
  the two HTTP requests and of each of the two subprocesses (its return code, or the
  exception that \<^verbatim>\<open>requests.post\<close> or \<^verbatim>\<open>subprocess.run\<close> raises by itself, such as
  \<^verbatim>\<open>TimeoutExpired\<close>), and what the benchmark has written to its two streams when
  \<^verbatim>\<open>subprocess.run\<close> returns or raises.  The body of an answer is the value that
  \<^verbatim>\<open>response.json()\<close> returns, of the shape the API documents.  Opening, reading and
  removing the two files \<^verbatim>\<open>stderr.txt\<close> and \<^verbatim>\<open>stdout.txt\<close> is taken to succeed.
\<close>

record env =
  post_projects :: "project response outcome"
  run_psql :: "int outcome"
  run_pgbench :: "int outcome"
  pgbench_stderr :: string
  pgbench_stdout :: string
  post_delete :: "string response outcome"

text \<open>
  The observable state: the files of the working directory and the trace of what
  happened, oldest event first.  \<open>Call_create\<close> and \<open>Return_create\<close> mark the call of
  \<^verbatim>\<open>create_project\<close> and its return with a project identifier, \<open>Call_delete\<close> the call
  of \<^verbatim>\<open>delete_project\<close>.
\<close>

datatype event =
    Call_create settings
  | Return_create string
  | Call_delete string
  | Run_psql string string
  | Run_pgbench string
  | Open_write string
  | Unlink string
  | Print_output string
  | Print_exc exn

record world =
  files :: "string \<rightharpoonup> string"
  events :: "event list"

definition log :: "event \<Rightarrow> world \<Rightarrow> world" where
  "log e w = w\<lparr>events := events w @ [e]\<rparr>"

definition create_project ::
  "env \<Rightarrow> settings \<Rightarrow> world \<Rightarrow> (exn + string \<times> string) \<times> world" where
  "create_project env settings w =
     (let w1 = log (Call_create settings) w in
      case post_projects env of
        Raises e \<Rightarrow> (Inl e, w1)
      | Returns response \<Rightarrow>
          if \<not> resp_ok response
          then (Inl (RuntimeError (Cant_create settings (resp_text response))), w1)
          else
            (let project = resp_json response in
             case map (\<lambda>role. r_dsn role @ ''/main'')
                    (filter (\<lambda>role. r_name role \<noteq> ''web_access'') (p_roles project)) of
               [] \<Rightarrow> (Inl IndexError, w1)
             | d # _ \<Rightarrow> (Inr (p_id project, d), log (Return_create (p_id project)) w1)))"

definition delete_project ::
  "env \<Rightarrow> string \<Rightarrow> world \<Rightarrow> (exn + string) \<times> world" where
  "delete_project env project_id w =
     (let w1 = log (Call_delete project_id) w in
      case post_delete env of
        Raises e \<Rightarrow> (Inl e, w1)
      | Returns response \<Rightarrow>
          if \<not> resp_ok response
          then (Inl (RuntimeError (Cant_delete project_id (resp_text response))), w1)
          else (Inr (resp_json response), w1))"

section \<open>The objective function\<close>

definition TIMEOUT :: int where
  "TIMEOUT = 200"

text \<open>
  The first loop of \<^verbatim>\<open>pgbench\<close>.  \<open>allowed\<close> is \<^verbatim>\<open>ALLOWED_SERVER_SETTINGS\<close> of
  \<^verbatim>\<open>space.py\<close> and \<open>str\<close> is Python's \<^verbatim>\<open>str\<close> on the values of the search space;
  both are parameters.  A dictionary is an association list in insertion order;
  assigning to a key that is present keeps its place.
\<close>

fun split_settings ::
  "string set \<Rightarrow> ('v \<Rightarrow> string) \<Rightarrow> (string \<times> 'v) list \<Rightarrow> settings \<times> settings
     \<Rightarrow> settings \<times> settings" where
  "split_settings allowed str [] (server_settings, client_settings) =
     (server_settings, client_settings)"
| "split_settings allowed str ((name, v) # items) (server_settings, client_settings) =
     (let value = str v in
      if name \<in> allowed
      then split_settings allowed str items
             (AList.update name value server_settings, client_settings)
      else split_settings allowed str items
             (server_settings, AList.update name value client_settings))"

text \<open>The second loop: one \<^verbatim>\<open>ALTER DATABASE\<close> statement for each client setting.\<close>

definition set_command_of :: "settings \<Rightarrow> string" where
  "set_command_of client_settings =
     foldl (\<lambda>set_command (k, v).
              set_command @ ''ALTER DATABASE main SET '' @ k @ ''='' @ v @ '';'')
       [] client_settings"

text \<open>\<^verbatim>\<open>subprocess.run(..., check=True)\<close>: a return code other than 0 raises.\<close>

definition checked :: "int outcome \<Rightarrow> exn + unit" where
  "checked r =
     (case r of
        Raises e \<Rightarrow> Inl e
      | Returns rc \<Rightarrow> if rc \<noteq> 0 then Inl (CalledProcessError rc) else Inr ())"

definition unlink :: "string \<Rightarrow> world \<Rightarrow> world" where
  "unlink path w = log (Unlink path) (w\<lparr>files := (files w)(path := None)\<rparr>)"

definition open_write :: "string \<Rightarrow> world \<Rightarrow> world" where
  "open_write path w = log (Open_write path) (w\<lparr>files := (files w)(path \<mapsto> [])\<rparr>)"

text \<open>The body of the \<^verbatim>\<open>try\<close> statement of \<^verbatim>\<open>pgbench\<close>.\<close>

definition pgbench_try :: "env \<Rightarrow> string \<Rightarrow> settings \<Rightarrow> world \<Rightarrow> (exn + rat) \<times> world" where
  "pgbench_try env dsn client_settings w =
     (let set_command = set_command_of client_settings;
          w1 = log (Run_psql dsn set_command) w in
      case checked (run_psql env) of
        Inl e \<Rightarrow> (Inl e, w1)
      | Inr _ \<Rightarrow>
         (let w2 = open_write ''stdout.txt'' (open_write ''stderr.txt'' w1);
              w3 = log (Run_pgbench dsn)
                     (w2\<lparr>files := (files w2)(''stderr.txt'' \<mapsto> pgbench_stderr env,
                                              ''stdout.txt'' \<mapsto> pgbench_stdout env)\<rparr>) in
          case checked (run_pgbench env) of
            Inl e \<Rightarrow> (Inl e, w3)
          | Inr _ \<Rightarrow>
             (case files w3 ''stderr.txt'' of
                None \<Rightarrow> (Inl FileNotFoundError, w3)
              | Some txt \<Rightarrow>
                 (let (printed, r) = parse_pgbench_initialize_output txt;
                      w4 = foldl (\<lambda>w p. log (Print_output p) w) w3 printed in
                  case r of
                    Inl e \<Rightarrow> (Inl e, w4)
                  | Inr timings \<Rightarrow>
                     (case timings ''total'' of
                        None \<Rightarrow> (Inl KeyError, w4)
                      | Some t \<Rightarrow> (Inr t, w4))))))"

text \<open>
  \<^verbatim>\<open>pgbench\<close>: \<^verbatim>\<open>create_project\<close> is called before the \<^verbatim>\<open>try\<close> statement; the
  \<^verbatim>\<open>except Exception\<close> clause turns an exception of the body into \<^verbatim>\<open>TIMEOUT\<close>; the
  \<^verbatim>\<open>finally\<close> clause runs \<^verbatim>\<open>delete_project\<close> and then the two \<^verbatim>\<open>unlink\<close> calls, and
  an exception raised there replaces the pending return value.
\<close>

definition pgbench ::
  "string set \<Rightarrow> ('v \<Rightarrow> string) \<Rightarrow> env \<Rightarrow> (string \<times> 'v) list \<Rightarrow> world
     \<Rightarrow> (exn + rat) \<times> world" where
  "pgbench allowed str env options w =
     (let (server_settings, client_settings) = split_settings allowed str options ([], []) in
      case create_project env server_settings w of
        (Inl e, w1) \<Rightarrow> (Inl e, w1)
      | (Inr (project_id, dsn), w1) \<Rightarrow>
         (let (r, w2) = pgbench_try env dsn client_settings w1;
              (ret, w3) = (case r of
                             Inl exc \<Rightarrow> (of_int TIMEOUT, log (Print_exc exc) w2)
                           | Inr t \<Rightarrow> (t, w2)) in
          case delete_project env project_id w3 of
            (Inl e, w4) \<Rightarrow> (Inl e, w4)
          | (Inr _, w4) \<Rightarrow> (Inr ret, unlink ''stdout.txt'' (unlink ''stderr.txt'' w4))))"

text \<open>
  The calls that \<^verbatim>\<open>gp_minimize\<close> makes in \<^verbatim>\<open>main\<close>: the objective is called on one
  point after the other, each call in the world the previous one left, and an exception
  of the objective ends the run, since nothing between \<^verbatim>\<open>pgbench\<close> and the top level
  catches it.  How the points are chosen is not modelled: a trial is given by its
  point and by what the outside world does during it.
\<close>

fun run_trials ::
  "string set \<Rightarrow> ('v \<Rightarrow> string) \<Rightarrow> (env \<times> (string \<times> 'v) list) list \<Rightarrow> world
     \<Rightarrow> (exn + rat list) \<times> world" where
  "run_trials allowed str [] w = (Inr [], w)"
| "run_trials allowed str ((env, options) # trials) w =
     (case pgbench allowed str env options w of
        (Inl e, w1) \<Rightarrow> (Inl e, w1)
      | (Inr y, w1) \<Rightarrow>
         (case run_trials allowed str trials w1 of
            (Inl e, w2) \<Rightarrow> (Inl e, w2)
          | (Inr ys, w2) \<Rightarrow> (Inr (y # ys), w2)))"

text \<open>What a trace shows: the projects created, and the projects whose deletion was
  requested, in order.\<close>

fun provisioned :: "event list \<Rightarrow> string list" where
  "provisioned [] = []"
| "provisioned (Return_create p # evs) = p # provisioned evs"
| "provisioned (_ # evs) = provisioned evs"

fun destroy_calls :: "event list \<Rightarrow> string list" where
  "destroy_calls [] = []"
| "destroy_calls (Call_delete p # evs) = p # destroy_calls evs"
| "destroy_calls (_ # evs) = destroy_calls evs"

fun unlink_calls :: "event list \<Rightarrow> string list" where
  "unlink_calls [] = []"
| "unlink_calls (Unlink p # evs) = p # unlink_calls evs"
| "unlink_calls (_ # evs) = unlink_calls evs"

section \<open>Notions used to state the properties\<close>

text \<open>A base-10 decimal as the pattern captures it: digits, a point, digits.\<close>

definition is_decimal :: "string \<Rightarrow> bool" where
  "is_decimal v =
     (\<exists>a b. v = a @ ''.'' @ b \<and> a \<noteq> [] \<and> b \<noteq> [] \<and> list_all is_digit a \<and> list_all is_digit b)"

definition decimal_caps :: "string option list \<Rightarrow> bool" where
  "decimal_caps caps = (\<forall>v. Some v \<in> set caps \<longrightarrow> is_decimal v)"

text \<open>A pattern all of whose groups are \<^verbatim>\<open>(\d+\.\d+)\<close>.\<close>

fun decimal_groups :: "regex \<Rightarrow> bool" where
  "decimal_groups (Lit l) = True"
| "decimal_groups Digits = True"
| "decimal_groups (Cat r1 r2) = (decimal_groups r1 \<and> decimal_groups r2)"
| "decimal_groups (Opt r) = decimal_groups r"
| "decimal_groups (Group i r) = (r = seq [Digits, Lit ''.'', Digits])"

text \<open>
  The grammar of the report line in the words of the specification, section 4.4, for
  comparison with the pattern: the whole line is \<^verbatim>\<open>done in <total> s (\<close>, then the
  clauses \<^verbatim>\<open><label> <duration> s\<close> of the sub-phases that are present, in canonical
  order and separated by \<^verbatim>\<open>, \<close>, then \<^verbatim>\<open>).\<close> and nothing more.
\<close>

fun strip_prefix :: "string \<Rightarrow> string \<Rightarrow> string option" where
  "strip_prefix [] s = Some s"
| "strip_prefix (p # ps) [] = None"
| "strip_prefix (p # ps) (c # cs) = (if p = c then strip_prefix ps cs else None)"

definition strip_digits :: "string \<Rightarrow> string option" where
  "strip_digits s = (if takeWhile is_digit s = [] then None else Some (dropWhile is_digit s))"

definition strip_duration :: "string \<Rightarrow> string option" where
  "strip_duration s =
     (case strip_digits s of
        None \<Rightarrow> None
      | Some s1 \<Rightarrow>
         (case strip_prefix ''.'' s1 of
            None \<Rightarrow> None
          | Some s2 \<Rightarrow> strip_digits s2))"

definition strip_clause :: "string \<Rightarrow> string \<Rightarrow> string option" where
  "strip_clause label s =
     (case strip_prefix (label @ '' '') s of
        None \<Rightarrow> None
      | Some s1 \<Rightarrow>
         (case strip_duration s1 of
            None \<Rightarrow> None
          | Some s2 \<Rightarrow> strip_prefix '' s'' s2))"

text \<open>
  \<open>grammar_clauses first labels s\<close>: \<open>s\<close> is the rest of the line when the sub-phases
  \<open>labels\<close> may still come; \<open>first\<close> says that no clause has been read yet, so that
  the next one has no separator before it.
\<close>

fun grammar_clauses :: "bool \<Rightarrow> string list \<Rightarrow> string \<Rightarrow> bool" where
  "grammar_clauses first [] s = (s = '').'')"
| "grammar_clauses first (label # labels) s =
     (grammar_clauses first labels s \<or>
      (case (if first then Some s else strip_prefix '', '' s) of
         None \<Rightarrow> False
       | Some s1 \<Rightarrow>
          (case strip_clause label s1 of
             None \<Rightarrow> False
           | Some s2 \<Rightarrow> grammar_clauses False labels s2)))"

definition sub_phases :: "string list" where
  "sub_phases =
     [''drop tables'', ''create tables'', ''server-side generate'', ''vacuum'', ''primary keys'']"

definition spec_grammar_line :: "string \<Rightarrow> bool" where
  "spec_grammar_line line =
     (case strip_prefix ''done in '' line of
        None \<Rightarrow> False
      | Some s1 \<Rightarrow>
         (case strip_duration s1 of
            None \<Rightarrow> False
          | Some s2 \<Rightarrow>
             (case strip_prefix '' s ('' s2 of
                None \<Rightarrow> False
              | Some s3 \<Rightarrow> grammar_clauses True sub_phases s3)))"

text \<open>
  The part of the pattern after \<^verbatim>\<open>\(\<close>, by sub-phase: for each label and group number
  the optional clause and the optional separator, and the closing \<^verbatim>\<open>\)\.\<close> at the end.
\<close>

fun clauses_regex :: "(string \<times> nat) list \<Rightarrow> regex" where
  "clauses_regex [] = Lit '').''"
| "clauses_regex ((label, i) # ls) =
     Cat (Opt (seq [Lit (label @ '' ''), decimal i, Lit '' s'']))
       (Cat (Opt (Lit '', '')) (clauses_regex ls))"

section \<open>Example inputs\<close>

text \<open>
  A trial in which everything succeeds, and variants of it in which the creation of
  the project is refused, the deletion is refused, and \<^verbatim>\<open>psql\<close> exits with status 2.
\<close>

definition example_env :: env where
  "example_env =
     \<lparr>post_projects = Returns
        \<lparr>resp_ok = True, resp_text = ''created'',
         resp_json =
           \<lparr>p_id = ''proj-1'',
            p_roles = [\<lparr>r_name = ''web_access'', r_dsn = ''postgres://web_access@host''\<rparr>,
                       \<lparr>r_name = ''alice'', r_dsn = ''postgres://alice@host''\<rparr>,
                       \<lparr>r_name = ''bob'', r_dsn = ''postgres://bob@host''\<rparr>]\<rparr>\<rparr>,
      run_psql = Returns 0,
      run_pgbench = Returns 0,
      pgbench_stderr = ''creating tables...\<newline>done in 12.50 s (drop tables 1.00 s, create tables 2.00 s, server-side generate 8.25 s, vacuum 3.00 s, primary keys 0.75 s).\<newline>'',
      pgbench_stdout = [],
      post_delete = Returns \<lparr>resp_ok = True, resp_text = ''deleted'', resp_json = ''deleted''\<rparr>\<rparr>"

definition provision_failure_env :: env where
  "provision_failure_env =
     example_env\<lparr>post_projects := Returns
        \<lparr>resp_ok = False, resp_text = ''quota exceeded'',
         resp_json = \<lparr>p_id = [], p_roles = []\<rparr>\<rparr>\<rparr>"

definition teardown_failure_env :: env where
  "teardown_failure_env =
     example_env\<lparr>post_delete := Returns
        \<lparr>resp_ok = False, resp_text = ''project is busy'', resp_json = []\<rparr>\<rparr>"

definition psql_failure_env :: env where
  "psql_failure_env = example_env\<lparr>run_psql := Returns 2\<rparr>"

definition world0 :: world where
  "world0 = \<lparr>files = Map.empty, events = []\<rparr>"

section \<open>The output parser: properties\<close>

lemma splitlines_from_Nil: "splitlines_from cur s = [] \<longleftrightarrow> cur = [] \<and> s = []"
  by (induction cur s rule: splitlines_from.induct) auto

lemma splitlines_Nil: "splitlines s = [] \<longleftrightarrow> s = []"
  by (simp add: splitlines_def splitlines_from_Nil)

text \<open>
  C10: on the empty string \<^verbatim>\<open>splitlines()\<close> gives no line and selecting the last one
  raises \<^verbatim>\<open>IndexError\<close>, not the parser's own error; the empty string is the only input
  for which the last line is not defined.
\<close>

lemma unpack_timings_cases:
  "unpack_timings xs = Inl ValueError \<or> (\<exists>t d c g v p. xs = [t, d, c, g, v, p])"
  by (induction xs rule: unpack_timings.induct) simp_all

lemma unpack_timings_Inl: "unpack_timings xs = Inl e \<Longrightarrow> e = ValueError"
  using unpack_timings_cases [of xs] by auto

theorem parse_empty_IndexError:
  "parse_pgbench_initialize_output [] = ([], Inl IndexError) \<and>
   (\<forall>output. (snd (parse_pgbench_initialize_output output) = Inl IndexError) = (output = []))"
proof -
  have "(snd (parse_pgbench_initialize_output out) = Inl IndexError) = (out = [])"
    for out
  proof (cases "splitlines out")
    case Nil
    then have "out = []" by (simp add: splitlines_Nil)
    then show ?thesis
      by (simp add: parse_pgbench_initialize_output_def splitlines_def)
  next
    case (Cons l ls)
    then have "out \<noteq> []" using splitlines_Nil [of out] by auto
    with Cons show ?thesis
      by (auto simp: parse_pgbench_initialize_output_def split: option.splits
          dest: unpack_timings_Inl)
  qed
  then show ?thesis
    by (simp add: parse_pgbench_initialize_output_def splitlines_def)
qed

lemma digit_splits_sound:
  "s' \<in> set (digit_splits s) \<Longrightarrow> \<exists>p. s = p @ s' \<and> p \<noteq> [] \<and> list_all is_digit p"
proof (induction s)
  case Nil
  then show ?case by simp
next
  case (Cons c cs)
  show ?case
  proof (cases "s' = cs")
    case True
    with Cons.prems show ?thesis by (auto split: if_splits intro: exI [of _ "[c]"])
  next
    case False
    with Cons.prems have "is_digit c" "s' \<in> set (digit_splits cs)" by (auto split: if_splits)
    with Cons.IH obtain p where "cs = p @ s'" "list_all is_digit p" by blast
    with \<open>is_digit c\<close> show ?thesis by (intro exI [of _ "c # p"]) simp
  qed
qed

lemma match_all_length:
  "(caps', s') \<in> set (match_all r (caps, s)) \<Longrightarrow> length caps' = length caps"
  by (induction r arbitrary: caps s caps' s') (auto split: if_splits)

lemma match_all_suffix:
  "(caps', s') \<in> set (match_all r (caps, s)) \<Longrightarrow> \<exists>p. s = p @ s'"
proof (induction r arbitrary: caps s caps' s')
  case (Lit l)
  then show ?case by (auto split: if_splits) (metis append_take_drop_id)
next
  case Digits
  then show ?case using digit_splits_sound by auto
next
  case (Cat r1 r2)
  then show ?case by fastforce
next
  case (Opt r)
  then show ?case by auto
next
  case (Group i r)
  then show ?case by auto
qed


lemma decimal_body_sound:
  assumes "(caps', s') \<in> set (match_all (seq [Digits, Lit ''.'', Digits]) (caps, s))"
  shows "caps' = caps \<and> (\<exists>p. is_decimal p \<and> s = p @ s')"
proof -
  from assms obtain s1 s2 where
    1: "s1 \<in> set (digit_splits s)" and
    2: "take 1 s1 = ''.''" "s2 = drop 1 s1" and
    3: "s' \<in> set (digit_splits s2)" and c: "caps' = caps"
    by (auto split: if_splits)
  from 1 obtain a where a: "s = a @ s1" "a \<noteq> []" "list_all is_digit a"
    using digit_splits_sound by blast
  from 3 obtain b where b: "s2 = b @ s'" "b \<noteq> []" "list_all is_digit b"
    using digit_splits_sound by blast
  from 2 have "s1 = ''.'' @ s2" by (cases s1) auto
  with a b have "s = (a @ ''.'' @ b) @ s'" "is_decimal (a @ ''.'' @ b)"
    by (auto simp: is_decimal_def)
  with c show ?thesis by blast
qed

lemma decimal_sound:
  assumes "(caps', s') \<in> set (match_all (decimal i) (caps, s))"
  shows "\<exists>p. is_decimal p \<and> caps' = caps[i := Some p] \<and> s = p @ s'"
proof -
  from assms obtain c0 where
    m: "(c0, s') \<in> set (match_all (seq [Digits, Lit ''.'', Digits]) (caps, s))" and
    c: "caps' = c0[i := Some (take (length s - length s') s)]"
    unfolding decimal_def by auto
  from decimal_body_sound [OF m] obtain p where "c0 = caps" "is_decimal p" "s = p @ s'"
    by blast
  with c show ?thesis by auto
qed

lemma decimal_caps_update:
  "decimal_caps caps \<Longrightarrow> is_decimal p \<Longrightarrow> decimal_caps (caps[i := Some p])"
proof -
  assume d: "decimal_caps caps" and p: "is_decimal p"
  have "set (caps[i := Some p]) \<subseteq> insert (Some p) (set caps)"
    by (rule set_update_subset_insert)
  with d p show ?thesis unfolding decimal_caps_def by auto
qed


lemma match_all_decimal_caps:
  "decimal_groups r \<Longrightarrow> decimal_caps caps \<Longrightarrow> (caps', s') \<in> set (match_all r (caps, s))
    \<Longrightarrow> decimal_caps caps'"
proof (induction r arbitrary: caps s caps' s')
  case (Group i r)
  then have "(caps', s') \<in> set (match_all (decimal i) (caps, s))"
    by (simp add: decimal_def)
  from decimal_sound [OF this] Group.prems(2) show ?case
    by (auto intro: decimal_caps_update)
next
  case (Cat r1 r2)
  from Cat.prems(3) obtain c1 s1 where
    "(c1, s1) \<in> set (match_all r1 (caps, s))" "(caps', s') \<in> set (match_all r2 (c1, s1))"
    by auto
  with Cat.IH Cat.prems(1,2) show ?case by (metis decimal_groups.simps(3))
next
  case (Opt r)
  then show ?case by auto
qed (auto split: if_splits)


lemma regex_decimal_groups: "decimal_groups regex"
  by (simp add: regex_def decimal_def)

lemma re_match_regex:
  assumes "re_match regex n s = Some groups"
  shows "length groups = n \<and> decimal_caps groups"
proof -
  from assms obtain s' where "(groups, s') \<in> set (match_all regex (replicate n None, s))"
    by (auto simp: re_match_def split: list.splits)
  moreover have "decimal_caps (replicate n None)" by (simp add: decimal_caps_def)
  ultimately show ?thesis
    using match_all_length [of groups s' regex "replicate n None" s]
      match_all_decimal_caps [OF regex_decimal_groups, of "replicate n None" groups s' s]
    by simp
qed

lemma filter_six:
  assumes "length groups = 6"
    "length (map (\<lambda>v. float (the v)) (filter (\<lambda>v. v \<noteq> None) groups)) = 6"
  shows "\<exists>t d c g v p. groups = [Some t, Some d, Some c, Some g, Some v, Some p]"
proof -
  have n: "None \<notin> set groups"
  proof
    assume "None \<in> set groups"
    then have "length (filter (\<lambda>v. v \<noteq> None) groups) < length groups"
      by (intro length_filter_less) auto
    with assms show False by simp
  qed
  from assms(1) have "length groups = Suc (Suc (Suc (Suc (Suc (Suc 0)))))" by simp
  then obtain x1 x2 x3 x4 x5 x6 where g: "groups = [x1, x2, x3, x4, x5, x6]"
    by (auto simp: length_Suc_conv)
  from n g obtain t where "x1 = Some t" by (cases x1) auto
  moreover from n g obtain d where "x2 = Some d" by (cases x2) auto
  moreover from n g obtain c where "x3 = Some c" by (cases x3) auto
  moreover from n g obtain e where "x4 = Some e" by (cases x4) auto
  moreover from n g obtain v where "x5 = Some v" by (cases x5) auto
  moreover from n g obtain p where "x6 = Some p" by (cases x6) auto
  ultimately show ?thesis using g by simp
qed


lemma parse_Inr_groups:
  assumes "snd (parse_pgbench_initialize_output output) = Inr timings"
  shows "\<exists>t d c g v p.
           re_match regex 6 (last (splitlines output)) =
             Some [Some t, Some d, Some c, Some g, Some v, Some p] \<and>
           timings = [''total'' \<mapsto> float t, ''drop_tables'' \<mapsto> float d,
                      ''create_tables'' \<mapsto> float c, ''server_side_generate'' \<mapsto> float g,
                      ''vacuum'' \<mapsto> float v, ''primary_keys'' \<mapsto> float p]"
proof -
  let ?xs = "\<lambda>groups. map (\<lambda>v. float (the v)) (filter (\<lambda>v. v \<noteq> None) groups)"
  obtain l ls where sl: "splitlines output = l # ls"
    using assms by (cases "splitlines output") (simp_all add: parse_pgbench_initialize_output_def)
  obtain groups where m: "re_match regex 6 (last (l # ls)) = Some groups"
    using assms sl by (cases "re_match regex 6 (last (l # ls))")
      (simp_all add: parse_pgbench_initialize_output_def)
  from assms sl m have u: "unpack_timings (?xs groups) = Inr timings"
    by (simp add: parse_pgbench_initialize_output_def)
  with unpack_timings_cases [of "?xs groups"]
  obtain a b c' d' e f where xs: "?xs groups = [a, b, c', d', e, f]" by auto
  then have "length (?xs groups) = 6" by simp
  with re_match_regex [OF m] filter_six [of groups] obtain t d c g v p where
    g: "groups = [Some t, Some d, Some c, Some g, Some v, Some p]" by blast
  with u have "timings = [''total'' \<mapsto> float t, ''drop_tables'' \<mapsto> float d,
                      ''create_tables'' \<mapsto> float c, ''server_side_generate'' \<mapsto> float g,
                      ''vacuum'' \<mapsto> float v, ''primary_keys'' \<mapsto> float p]"
    by simp
  with m g sl show ?thesis by simp
qed


lemma parse_fewer_groups:
  assumes "output \<noteq> []"
    and m: "re_match regex 6 (last (splitlines output)) = Some groups"
    and n: "None \<in> set groups"
  shows "parse_pgbench_initialize_output output = ([], Inl ValueError)"
proof -
  let ?xs = "map (\<lambda>v. float (the v)) (filter (\<lambda>v. v \<noteq> None) groups)"
  from assms(1) obtain l ls where sl: "splitlines output = l # ls"
    using splitlines_Nil [of "output"] by (cases "splitlines output") auto
  from n have "length (filter (\<lambda>v. v \<noteq> None) groups) < length groups"
    by (intro length_filter_less) auto
  with re_match_regex [OF m] have "length ?xs < 6" by simp
  with unpack_timings_cases [of ?xs] have "unpack_timings ?xs = Inl ValueError" by auto
  with sl m show ?thesis by (simp add: parse_pgbench_initialize_output_def)
qed

text \<open>
  C9: when the parser returns, the last line matched with the total and all five
  sub-phase timings captured, each capture is a decimal, and the dictionary has exactly
  the six keys, each bound to the value of its capture.  When the last line matches
  with some group not captured, the parser raises \<^verbatim>\<open>ValueError\<close>: it never returns a
  dictionary with an absent timing.
\<close>

theorem parse_returns_all_six:
  "(snd (parse_pgbench_initialize_output output) = Inr timings \<longrightarrow>
      dom timings = {''total'', ''drop_tables'', ''create_tables'', ''server_side_generate'',
                     ''vacuum'', ''primary_keys''} \<and>
      (\<exists>t d c g v p.
         re_match regex 6 (last (splitlines output)) =
           Some [Some t, Some d, Some c, Some g, Some v, Some p] \<and>
         is_decimal t \<and> is_decimal d \<and> is_decimal c \<and> is_decimal g \<and> is_decimal v \<and>
         is_decimal p \<and>
         timings = [''total'' \<mapsto> float t, ''drop_tables'' \<mapsto> float d,
                    ''create_tables'' \<mapsto> float c, ''server_side_generate'' \<mapsto> float g,
                    ''vacuum'' \<mapsto> float v, ''primary_keys'' \<mapsto> float p])) \<and>
   (output \<noteq> [] \<and> re_match regex 6 (last (splitlines output)) = Some groups \<and>
    None \<in> set groups \<longrightarrow>
      parse_pgbench_initialize_output output = ([], Inl ValueError))"
proof (intro conjI impI)
  assume r: "snd (parse_pgbench_initialize_output output) = Inr timings"
  from parse_Inr_groups [OF r] obtain t d c g v p where
    m: "re_match regex 6 (last (splitlines output)) =
          Some [Some t, Some d, Some c, Some g, Some v, Some p]" and
    t: "timings = [''total'' \<mapsto> float t, ''drop_tables'' \<mapsto> float d,
                   ''create_tables'' \<mapsto> float c, ''server_side_generate'' \<mapsto> float g,
                   ''vacuum'' \<mapsto> float v, ''primary_keys'' \<mapsto> float p]"
    by blast
  from t show "dom timings = {''total'', ''drop_tables'', ''create_tables'',
      ''server_side_generate'', ''vacuum'', ''primary_keys''}"
    by (simp only: dom_fun_upd dom_empty option.simps if_False insert_commute)
  from re_match_regex [OF m]
  have "is_decimal t" "is_decimal d" "is_decimal c" "is_decimal g" "is_decimal v" "is_decimal p"
    by (simp_all add: decimal_caps_def)
  with m t show "\<exists>t d c g v p.
         re_match regex 6 (last (splitlines output)) =
           Some [Some t, Some d, Some c, Some g, Some v, Some p] \<and>
         is_decimal t \<and> is_decimal d \<and> is_decimal c \<and> is_decimal g \<and> is_decimal v \<and>
         is_decimal p \<and>
         timings = [''total'' \<mapsto> float t, ''drop_tables'' \<mapsto> float d,
                    ''create_tables'' \<mapsto> float c, ''server_side_generate'' \<mapsto> float g,
                    ''vacuum'' \<mapsto> float v, ''primary_keys'' \<mapsto> float p]"
    by blast
next
  assume "output \<noteq> [] \<and> re_match regex 6 (last (splitlines output)) = Some groups \<and>
    None \<in> set groups"
  then show "parse_pgbench_initialize_output output = ([], Inl ValueError)"
    using parse_fewer_groups by blast
qed

lemma full_report_groups:
  "re_match regex 6
     ''done in 12.50 s (drop tables 1.00 s, create tables 2.00 s, server-side generate 8.25 s, vacuum 3.00 s, primary keys 0.75 s).'' =
   Some [Some ''12.50'', Some ''1.00'', Some ''2.00'', Some ''8.25'', Some ''3.00'', Some ''0.75'']"
  by code_simp

lemma full_report_lines:
  "splitlines
     ''done in 12.50 s (drop tables 1.00 s, create tables 2.00 s, server-side generate 8.25 s, vacuum 3.00 s, primary keys 0.75 s).'' =
   [''done in 12.50 s (drop tables 1.00 s, create tables 2.00 s, server-side generate 8.25 s, vacuum 3.00 s, primary keys 0.75 s).'']"
  by code_simp

lemma float_examples:
  "float ''12.50'' = 25 / 2" "float ''1.00'' = 1" "float ''2.00'' = 2"
  "float ''8.25'' = 33 / 4" "float ''3.00'' = 3" "float ''0.75'' = 3 / 4"
  by code_simp+

lemma full_report_parse:
  "parse_pgbench_initialize_output
     ''done in 12.50 s (drop tables 1.00 s, create tables 2.00 s, server-side generate 8.25 s, vacuum 3.00 s, primary keys 0.75 s).'' =
   ([], Inr [''total'' \<mapsto> 25 / 2, ''drop_tables'' \<mapsto> 1, ''create_tables'' \<mapsto> 2,
             ''server_side_generate'' \<mapsto> 33 / 4, ''vacuum'' \<mapsto> 3, ''primary_keys'' \<mapsto> 3 / 4])"
  by (simp only: parse_pgbench_initialize_output_def full_report_lines full_report_groups
      list.case option.case last.simps if_True filter.simps list.map option.sel
      unpack_timings.simps float_examples option.distinct not_False_eq_True simp_thms)

lemma bare_report_groups:
  "re_match regex 6 ''done in 1.0 s ().'' = Some [Some ''1.0'', None, None, None, None, None]"
  by code_simp

lemma bare_report_lines: "splitlines ''done in 1.0 s ().'' = [''done in 1.0 s ().'']"
  by code_simp

theorem parse_returns_all_six_witness:
  "snd (parse_pgbench_initialize_output
     ''done in 12.50 s (drop tables 1.00 s, create tables 2.00 s, server-side generate 8.25 s, vacuum 3.00 s, primary keys 0.75 s).'') =
     Inr [''total'' \<mapsto> 25 / 2, ''drop_tables'' \<mapsto> 1, ''create_tables'' \<mapsto> 2,
          ''server_side_generate'' \<mapsto> 33 / 4, ''vacuum'' \<mapsto> 3, ''primary_keys'' \<mapsto> 3 / 4] \<and>
   dom [''total'' \<mapsto> 25 / 2 :: rat, ''drop_tables'' \<mapsto> 1, ''create_tables'' \<mapsto> 2,
          ''server_side_generate'' \<mapsto> 33 / 4, ''vacuum'' \<mapsto> 3, ''primary_keys'' \<mapsto> 3 / 4] =
     {''total'', ''drop_tables'', ''create_tables'', ''server_side_generate'',
      ''vacuum'', ''primary_keys''} \<and>
   re_match regex 6 (last (splitlines ''done in 1.0 s ().'')) =
     Some [Some ''1.0'', None, None, None, None, None] \<and>
   parse_pgbench_initialize_output ''done in 1.0 s ().'' = ([], Inl ValueError)"
proof -
  let ?L = "''done in 12.50 s (drop tables 1.00 s, create tables 2.00 s, server-side generate 8.25 s, vacuum 3.00 s, primary keys 0.75 s).''"
  let ?M = "[''total'' \<mapsto> 25 / 2 :: rat, ''drop_tables'' \<mapsto> 1, ''create_tables'' \<mapsto> 2,
          ''server_side_generate'' \<mapsto> 33 / 4, ''vacuum'' \<mapsto> 3, ''primary_keys'' \<mapsto> 3 / 4]"
  have 1: "snd (parse_pgbench_initialize_output ?L) = Inr ?M"
    by (simp only: full_report_parse snd_conv)
  have 2: "re_match regex 6 (last (splitlines ''done in 1.0 s ().'')) =
     Some [Some ''1.0'', None, None, None, None, None]"
    by (simp add: bare_report_lines bare_report_groups)
  have 3: "None \<in> set [Some ''1.0'', None, None, None, None, None]" by simp
  have 4: "''done in 1.0 s ().'' \<noteq> []" by simp
  have a: "dom ?M = {''total'', ''drop_tables'', ''create_tables'', ''server_side_generate'',
      ''vacuum'', ''primary_keys''}"
    by (rule parse_returns_all_six [of ?L ?M, THEN conjunct1, THEN mp, OF 1, THEN conjunct1])
  have b: "parse_pgbench_initialize_output ''done in 1.0 s ().'' = ([], Inl ValueError)"
    by (rule parse_returns_all_six [of "''done in 1.0 s ().''" _
          "[Some ''1.0'', None, None, None, None, None]", THEN conjunct2, THEN mp,
          OF conjI [OF 4 conjI [OF 2 3]]])
  show ?thesis by (intro conjI 1 a 2 b)
qed

text \<open>
  C2: the example line of the specification, with three of the five sub-phases.  The
  pattern matches it with two groups not captured, and the tuple assignment then raises
  \<^verbatim>\<open>ValueError\<close>: the parser does not return the timings with two absent values.
\<close>

theorem parse_example_three_phases:
  "parse_pgbench_initialize_output
     ''done in 12.50 s (drop tables 1.00 s, create tables 2.00 s, vacuum 3.00 s).'' =
   ([], Inl ValueError)"
proof -
  have "splitlines ''done in 12.50 s (drop tables 1.00 s, create tables 2.00 s, vacuum 3.00 s).'' =
    [''done in 12.50 s (drop tables 1.00 s, create tables 2.00 s, vacuum 3.00 s).'']"
    by code_simp
  moreover have "re_match regex 6
      ''done in 12.50 s (drop tables 1.00 s, create tables 2.00 s, vacuum 3.00 s).'' =
    Some [Some ''12.50'', Some ''1.00'', Some ''2.00'', None, Some ''3.00'', None]"
    by code_simp
  ultimately show ?thesis
    by (simp add: parse_pgbench_initialize_output_def)
qed


subsection \<open>The pattern and the grammar of the specification\<close>

lemma regex_clauses:
  "regex =
     Cat (Lit ''done in '') (Cat (decimal 0) (Cat (Lit '' s '') (Cat (Lit ''('')
       (clauses_regex [(''drop tables'', 1), (''create tables'', 2),
          (''server-side generate'', 3), (''vacuum'', 4), (''primary keys'', 5)]))))"
  by (simp add: regex_def)

lemma Cat_nonempty:
  "match_all (Cat r1 r2) st \<noteq> [] \<longleftrightarrow> (\<exists>st1 \<in> set (match_all r1 st). match_all r2 st1 \<noteq> [])"
  by auto

lemma Lit_match: "match_all (Lit l) (caps, l @ s) = [(caps, s)]"
  by simp

lemma strip_prefix_Some: "strip_prefix p s = Some r \<Longrightarrow> s = p @ r"
  by (induction p s rule: strip_prefix.induct) (auto split: if_splits)

lemma digit_splits_complete:
  "d \<noteq> [] \<Longrightarrow> list_all is_digit d \<Longrightarrow> r \<in> set (digit_splits (d @ r))"
proof (induction d)
  case Nil
  then show ?case by simp
next
  case (Cons c d)
  then show ?case by (cases "d = []") auto
qed

lemma strip_digits_Some:
  assumes "strip_digits s = Some r"
  shows "r \<in> set (digit_splits s)"
proof -
  from assms have d: "takeWhile is_digit s \<noteq> []" and r: "r = dropWhile is_digit s"
    by (auto simp: strip_digits_def split: if_splits)
  have "list_all is_digit (takeWhile is_digit s)"
    by (simp add: list_all_iff) (meson set_takeWhileD)
  from digit_splits_complete [OF d this, of r] r show ?thesis by simp
qed

lemma Cat_I:
  "st1 \<in> set (match_all r1 st) \<Longrightarrow> st2 \<in> set (match_all r2 st1)
    \<Longrightarrow> st2 \<in> set (match_all (Cat r1 r2) st)"
  by auto

lemma Opt_take: "st1 \<in> set (match_all r st) \<Longrightarrow> st1 \<in> set (match_all (Opt r) st)"
  by simp

lemma Opt_skip: "st \<in> set (match_all (Opt r) st)"
  by simp

lemma Group_I:
  assumes "(caps', s') \<in> set (match_all r (caps, s))"
  shows "(caps'[i := Some (take (length s - length s') s)], s') \<in> set (match_all (Group i r) (caps, s))"
  using assms
  by (simp only: match_all.simps set_map) (rule image_eqI [of _ _ "(caps', s')"], simp_all)

lemma strip_duration_match:
  assumes "strip_duration s = Some r"
  shows "\<exists>caps'. (caps', r) \<in> set (match_all (decimal i) (caps, s))"
proof -
  from assms obtain s1 where 1: "strip_digits s = Some s1"
    by (cases "strip_digits s") (simp_all add: strip_duration_def)
  with assms obtain s2 where 2: "strip_prefix ''.'' s1 = Some s2"
    by (cases "strip_prefix ''.'' s1") (simp_all add: strip_duration_def)
  with assms 1 have 3: "strip_digits s2 = Some r"
    by (simp add: strip_duration_def)
  from 2 have s1: "s1 = ''.'' @ s2" by (rule strip_prefix_Some)
  have d1: "(caps, s1) \<in> set (match_all Digits (caps, s))"
    using strip_digits_Some [OF 1] by simp
  have d2: "(caps, s2) \<in> set (match_all (Lit ''.'') (caps, s1))"
    unfolding s1 by simp
  have d3: "(caps, r) \<in> set (match_all Digits (caps, s2))"
    using strip_digits_Some [OF 3] by simp
  have "(caps, r) \<in> set (match_all (Cat Digits (Cat (Lit ''.'') Digits)) (caps, s))"
    by (rule Cat_I [OF d1 Cat_I [OF d2 d3]])
  then have "(caps, r) \<in> set (match_all (seq [Digits, Lit ''.'', Digits]) (caps, s))"
    by (simp only: seq.simps)
  from Group_I [OF this, of i] show ?thesis
    unfolding decimal_def by blast
qed

lemma strip_clause_match:
  assumes "strip_clause label s = Some r"
  shows "\<exists>caps'. (caps', r) \<in>
    set (match_all (seq [Lit (label @ '' ''), decimal i, Lit '' s'']) (caps, s))"
proof -
  from assms obtain s1 where 1: "strip_prefix (label @ '' '') s = Some s1"
    by (cases "strip_prefix (label @ '' '') s") (simp_all add: strip_clause_def)
  with assms obtain s2 where 2: "strip_duration s1 = Some s2"
    by (cases "strip_duration s1") (simp_all add: strip_clause_def)
  with assms 1 have 3: "strip_prefix '' s'' s2 = Some r"
    by (simp add: strip_clause_def)
  from 1 have a: "s = (label @ '' '') @ s1" by (rule strip_prefix_Some)
  from 3 have b: "s2 = '' s'' @ r" by (rule strip_prefix_Some)
  from strip_duration_match [OF 2, of i caps] obtain caps' where
    c: "(caps', s2) \<in> set (match_all (decimal i) (caps, s1))" by blast
  have l1: "(caps, s1) \<in> set (match_all (Lit (label @ '' '')) (caps, s))"
    unfolding a by (simp only: Lit_match list.set insertI1)
  have l2: "(caps', r) \<in> set (match_all (Lit '' s'') (caps', s2))"
    unfolding b by (simp only: Lit_match list.set insertI1)
  have "(caps', r) \<in> set (match_all
      (Cat (Lit (label @ '' '')) (Cat (decimal i) (Lit '' s''))) (caps, s))"
    by (rule Cat_I [OF l1 Cat_I [OF c l2]])
  then show ?thesis by (simp only: seq.simps) blast
qed


lemma grammar_clauses_match:
  "(grammar_clauses True (map fst ls) s \<longrightarrow>
      (\<forall>caps. match_all (clauses_regex ls) (caps, s) \<noteq> [])) \<and>
   (grammar_clauses False (map fst ls) s \<longrightarrow>
      (\<forall>caps. match_all (Cat (Opt (Lit '', '')) (clauses_regex ls)) (caps, s) \<noteq> []))"
proof (induction ls arbitrary: s)
  case Nil
  show ?case
  proof (intro conjI impI allI)
    fix caps
    assume "grammar_clauses True (map fst []) s"
    then show "match_all (clauses_regex []) (caps, s) \<noteq> []" by simp
  next
    fix caps
    assume "grammar_clauses False (map fst []) s"
    then have "match_all (clauses_regex []) (caps, s) \<noteq> []" by simp
    with Opt_skip [of "(caps, s)" "Lit '', ''"]
    show "match_all (Cat (Opt (Lit '', '')) (clauses_regex [])) (caps, s) \<noteq> []"
      unfolding Cat_nonempty by blast
  qed
next
  case (Cons li ls)
  obtain label i where li: "li = (label, i)" by (cases li)
  let ?c = "Opt (seq [Lit (label @ '' ''), decimal i, Lit '' s''])"
  let ?sep = "Opt (Lit '', '')"
  let ?rest = "clauses_regex ls"
  have IH_T: "grammar_clauses True (map fst ls) s' \<Longrightarrow> match_all ?rest (caps, s') \<noteq> []"
    for s' caps using Cons.IH [of s'] by blast
  have IH_F: "grammar_clauses False (map fst ls) s' \<Longrightarrow>
      match_all (Cat ?sep ?rest) (caps, s') \<noteq> []"
    for s' caps using Cons.IH [of s'] by blast
  have after_clause: "match_all (Cat ?c (Cat ?sep ?rest)) (caps, s1) \<noteq> []"
    if "strip_clause label s1 = Some s2" "grammar_clauses False (map fst ls) s2"
    for caps s1 s2
  proof -
    from strip_clause_match [OF that(1), of i caps] obtain caps' where
      "(caps', s2) \<in> set (match_all (seq [Lit (label @ '' ''), decimal i, Lit '' s'']) (caps, s1))"
      by blast
    then have "(caps', s2) \<in> set (match_all ?c (caps, s1))" by (rule Opt_take)
    with IH_F [OF that(2), of caps'] show ?thesis unfolding Cat_nonempty [of ?c] by blast
  qed
  have skip_clause: "match_all (Cat ?c (Cat ?sep ?rest)) st \<noteq> []"
    if "match_all ?rest st \<noteq> []" for st
  proof -
    from that Opt_skip [of st "Lit '', ''"] have "match_all (Cat ?sep ?rest) st \<noteq> []"
      unfolding Cat_nonempty by blast
    with Opt_skip [of st "seq [Lit (label @ '' ''), decimal i, Lit '' s'']"] show ?thesis
      unfolding Cat_nonempty [of ?c] by blast
  qed
  show ?case
  proof (intro conjI impI allI)
    fix caps
    assume "grammar_clauses True (map fst (li # ls)) s"
    then consider "grammar_clauses True (map fst ls) s"
      | s2 where "strip_clause label s = Some s2" "grammar_clauses False (map fst ls) s2"
      by (auto simp: li split: option.splits)
    then have "match_all (Cat ?c (Cat ?sep ?rest)) (caps, s) \<noteq> []"
    proof cases
      case 1
      from skip_clause [OF IH_T [OF 1]] show ?thesis .
    next
      case 2
      from after_clause [OF 2] show ?thesis .
    qed
    then show "match_all (clauses_regex (li # ls)) (caps, s) \<noteq> []"
      unfolding li clauses_regex.simps .
  next
    fix caps
    assume "grammar_clauses False (map fst (li # ls)) s"
    then consider "grammar_clauses False (map fst ls) s"
      | s1 s2 where "strip_prefix '', '' s = Some s1" "strip_clause label s1 = Some s2"
          "grammar_clauses False (map fst ls) s2"
      by (auto simp: li split: option.splits)
    then have "match_all (Cat ?sep (Cat ?c (Cat ?sep ?rest))) (caps, s) \<noteq> []"
    proof cases
      case 1
      from IH_F [OF 1, of caps] obtain st1 where
        st1: "st1 \<in> set (match_all ?sep (caps, s))" "match_all ?rest st1 \<noteq> []"
        unfolding Cat_nonempty by blast
      from skip_clause [OF st1(2)] st1(1) show ?thesis
        unfolding Cat_nonempty [of ?sep] by blast
    next
      case 2
      from strip_prefix_Some [OF 2(1)] have "s = '', '' @ s1" .
      then have "(caps, s1) \<in> set (match_all (Lit '', '') (caps, s))"
        by (simp only: Lit_match list.set insertI1)
      then have "(caps, s1) \<in> set (match_all ?sep (caps, s))" by (rule Opt_take)
      with after_clause [OF 2(2,3), of caps] show ?thesis
        unfolding Cat_nonempty [of ?sep] by blast
    qed
    then show "match_all (Cat (Opt (Lit '', '')) (clauses_regex (li # ls))) (caps, s) \<noteq> []"
      unfolding li clauses_regex.simps .
  qed
qed

lemma spec_grammar_line_matches:
  assumes "spec_grammar_line line"
  shows "re_match regex 6 line \<noteq> None"
proof -
  let ?ls = "[(''drop tables'', 1), (''create tables'', 2),
          (''server-side generate'', 3), (''vacuum'', 4), (''primary keys'', 5 :: nat)]"
  let ?caps = "replicate 6 None"
  from assms obtain s1 where 1: "strip_prefix ''done in '' line = Some s1"
    by (cases "strip_prefix ''done in '' line") (simp_all add: spec_grammar_line_def)
  with assms obtain s2 where 2: "strip_duration s1 = Some s2"
    by (cases "strip_duration s1") (simp_all add: spec_grammar_line_def)
  with assms 1 obtain s3 where 3: "strip_prefix '' s ('' s2 = Some s3"
    by (cases "strip_prefix '' s ('' s2") (simp_all add: spec_grammar_line_def)
  with assms 1 2 have 4: "grammar_clauses True sub_phases s3"
    by (simp add: spec_grammar_line_def)
  have sp: "sub_phases = map fst ?ls"
    by (simp only: sub_phases_def list.map fst_conv)
  from 4 have g4: "grammar_clauses True (map fst ?ls) s3"
    by (simp only: sp)
  have c: "match_all (clauses_regex ?ls) (caps, s3) \<noteq> []" for caps
    by (rule grammar_clauses_match [THEN conjunct1, THEN mp, THEN spec, OF g4])
  from strip_prefix_Some [OF 1] have "line = ''done in '' @ s1" .
  then have a: "(?caps, s1) \<in> set (match_all (Lit ''done in '') (?caps, line))"
    by (simp only: Lit_match list.set insertI1)
  from strip_duration_match [OF 2, of 0 ?caps] obtain caps' where
    b: "(caps', s2) \<in> set (match_all (decimal 0) (?caps, s1))" by blast
  from strip_prefix_Some [OF 3] have s2: "s2 = '' s '' @ (''('' @ s3)"
    by (simp only: append.simps)
  have d: "(caps', ''('' @ s3) \<in> set (match_all (Lit '' s '') (caps', s2))"
    unfolding s2 by (simp only: Lit_match list.set insertI1)
  have e: "(caps', s3) \<in> set (match_all (Lit ''('') (caps', ''('' @ s3))"
    by (simp only: Lit_match list.set insertI1)
  from c [of caps'] e have "match_all (Cat (Lit ''('') (clauses_regex ?ls)) (caps', ''('' @ s3) \<noteq> []"
    unfolding Cat_nonempty by blast
  with d have "match_all (Cat (Lit '' s '') (Cat (Lit ''('') (clauses_regex ?ls))) (caps', s2) \<noteq> []"
    unfolding Cat_nonempty [of "Lit '' s ''"] by blast
  with b have "match_all (Cat (decimal 0) (Cat (Lit '' s '') (Cat (Lit ''('') (clauses_regex ?ls))))
      (?caps, s1) \<noteq> []"
    unfolding Cat_nonempty [of "decimal 0"] by blast
  with a have "match_all regex (?caps, line) \<noteq> []"
    unfolding regex_clauses Cat_nonempty [of "Lit ''done in ''"] by blast
  then show ?thesis
    by (cases "match_all regex (?caps, line)") (auto simp: re_match_def)
qed


text \<open>
  C4 as stated fails: this last line has text after the closing \<^verbatim>\<open>).\<close>, so it does not
  conform to the grammar, and the parser accepts it, since \<^verbatim>\<open>regex.match\<close> anchors the
  pattern at the start of the line only.
\<close>

theorem parse_accepts_trailing_text:
  "\<not> spec_grammar_line
     ''done in 9.50 s (drop tables 0.25 s, create tables 0.50 s, server-side generate 5.00 s, vacuum 1.50 s, primary keys 2.25 s). and more'' \<and>
   parse_pgbench_initialize_output
     ''done in 9.50 s (drop tables 0.25 s, create tables 0.50 s, server-side generate 5.00 s, vacuum 1.50 s, primary keys 2.25 s). and more'' =
   ([], Inr [''total'' \<mapsto> 19 / 2, ''drop_tables'' \<mapsto> 1 / 4, ''create_tables'' \<mapsto> 1 / 2,
             ''server_side_generate'' \<mapsto> 5, ''vacuum'' \<mapsto> 3 / 2, ''primary_keys'' \<mapsto> 9 / 4])"
proof -
  let ?L = "''done in 9.50 s (drop tables 0.25 s, create tables 0.50 s, server-side generate 5.00 s, vacuum 1.50 s, primary keys 2.25 s). and more''"
  have g: "spec_grammar_line ?L = False" by code_simp
  have l: "splitlines ?L = [?L]" by code_simp
  have m: "re_match regex 6 ?L =
    Some [Some ''9.50'', Some ''0.25'', Some ''0.50'', Some ''5.00'', Some ''1.50'', Some ''2.25'']"
    by code_simp
  have f: "float ''9.50'' = 19 / 2" "float ''0.25'' = 1 / 4" "float ''0.50'' = 1 / 2"
    "float ''5.00'' = 5" "float ''1.50'' = 3 / 2" "float ''2.25'' = 9 / 4"
    by code_simp+
  have "parse_pgbench_initialize_output ?L =
   ([], Inr [''total'' \<mapsto> 19 / 2, ''drop_tables'' \<mapsto> 1 / 4, ''create_tables'' \<mapsto> 1 / 2,
             ''server_side_generate'' \<mapsto> 5, ''vacuum'' \<mapsto> 3 / 2, ''primary_keys'' \<mapsto> 9 / 4])"
    by (simp only: parse_pgbench_initialize_output_def l m
      list.case option.case last.simps if_True filter.simps list.map option.sel
      unpack_timings.simps f option.distinct not_False_eq_True simp_thms)
  with g show ?thesis by (simp only: simp_thms)
qed

text \<open>
  C4, amended: the parser raises its own error, \<^verbatim>\<open>RuntimeError("Something went wrong")\<close>,
  exactly on the inputs that have a last line that the pattern does not match from its
  start; it then has printed the raw text, and that last line does not conform to the
  grammar.  Lines that the pattern matches without conforming are not rejected this way.
\<close>

theorem parse_error_on_unmatched:
  "(snd (parse_pgbench_initialize_output output) = Inl (RuntimeError Something_went_wrong)) =
     (output \<noteq> [] \<and> re_match regex 6 (last (splitlines output)) = None) \<and>
   (output \<noteq> [] \<and> re_match regex 6 (last (splitlines output)) = None \<longrightarrow>
      parse_pgbench_initialize_output output =
        ([output], Inl (RuntimeError Something_went_wrong)) \<and>
      \<not> spec_grammar_line (last (splitlines output)))"
proof (cases "splitlines output")
  case Nil
  then have "output = []" by (simp add: splitlines_Nil)
  then show ?thesis by (simp add: parse_pgbench_initialize_output_def splitlines_def)
next
  case (Cons l ls)
  then have ne: "output \<noteq> []" using splitlines_Nil [of "output"] by auto
  show ?thesis
  proof (cases "re_match regex 6 (last (splitlines output))")
    case None
    with spec_grammar_line_matches [of "last (splitlines output)"]
    have "\<not> spec_grammar_line (last (splitlines output))" by blast
    with None Cons ne show ?thesis
      by (simp add: parse_pgbench_initialize_output_def)
  next
    case (Some groups)
    with Cons have "snd (parse_pgbench_initialize_output output) =
      unpack_timings (map (\<lambda>v. float (the v)) (filter (\<lambda>v. v \<noteq> None) groups))"
      by (simp add: parse_pgbench_initialize_output_def)
    with unpack_timings_Inl
    have "snd (parse_pgbench_initialize_output output) \<noteq> Inl (RuntimeError Something_went_wrong)"
      by (metis exn.distinct(3))
    with Some show ?thesis by simp
  qed
qed

theorem parse_error_on_unmatched_witness:
  "''something went wrong'' \<noteq> [] \<and>
   re_match regex 6 (last (splitlines ''something went wrong'')) = None \<and>
   parse_pgbench_initialize_output ''something went wrong'' =
     ([''something went wrong''], Inl (RuntimeError Something_went_wrong)) \<and>
   \<not> spec_grammar_line (last (splitlines ''something went wrong''))"
proof -
  have 1: "''something went wrong'' \<noteq> []" by simp
  have l: "splitlines ''something went wrong'' = [''something went wrong'']" by code_simp
  have m: "re_match regex 6 ''something went wrong'' = None" by code_simp
  have 2: "re_match regex 6 (last (splitlines ''something went wrong'')) = None"
    by (simp add: l m)
  note r = parse_error_on_unmatched [of "''something went wrong''", THEN conjunct2, THEN mp,
      OF conjI [OF 1 2]]
  show ?thesis by (intro conjI 1 2 r [THEN conjunct1] r [THEN conjunct2])
qed



section \<open>The settings and the remote API: properties\<close>

lemma AList_update_fresh: "k \<notin> fst ` set al \<Longrightarrow> AList.update k v al = al @ [(k, v)]"
  by (induction al) auto

lemma split_settings_keys:
  "split_settings allowed str options (s, c) = (s', c') \<Longrightarrow>
     fst ` set s' = fst ` set s \<union> (fst ` set options \<inter> allowed) \<and>
     fst ` set c' = fst ` set c \<union> (fst ` set options - allowed)"
proof (induction allowed str options "(s, c)" arbitrary: s c rule: split_settings.induct)
  case (1 allowed str server_settings client_settings)
  then show ?case by simp
next
  case (2 allowed str name v items server_settings client_settings)
  show ?case
  proof (cases "name \<in> allowed")
    case True
    with 2 show ?thesis by (auto simp: AList.dom_update)
  next
    case False
    with 2 show ?thesis by (auto simp: AList.dom_update)
  qed
qed

lemma split_settings_lists:
  "split_settings allowed str options (s, c) = (s', c') \<Longrightarrow>
   distinct (map fst options) \<Longrightarrow>
   fst ` set options \<inter> (fst ` set s \<union> fst ` set c) = {} \<Longrightarrow>
     s' = s @ map (\<lambda>(name, v). (name, str v)) (filter (\<lambda>(name, v). name \<in> allowed) options) \<and>
     c' = c @ map (\<lambda>(name, v). (name, str v)) (filter (\<lambda>(name, v). name \<notin> allowed) options)"
proof (induction allowed str options "(s, c)" arbitrary: s c rule: split_settings.induct)
  case (1 allowed str server_settings client_settings)
  then show ?case by simp
next
  case (2 allowed str name v items server_settings client_settings)
  from "2.prems"(3) have fresh: "name \<notin> fst ` set server_settings" "name \<notin> fst ` set client_settings"
    by auto
  from "2.prems"(2) have d: "distinct (map fst items)" "name \<notin> fst ` set items" by auto
  show ?case
  proof (cases "name \<in> allowed")
    case True
    have "fst ` set items \<inter>
        (fst ` set (AList.update name (str v) server_settings) \<union> fst ` set client_settings) = {}"
      using "2.prems"(3) d by (auto simp: AList.dom_update)
    with "2.hyps"(1) [OF refl True _ d(1)] "2.prems"(1) True
    show ?thesis by (simp add: AList_update_fresh [OF fresh(1)])
  next
    case False
    have "fst ` set items \<inter>
        (fst ` set server_settings \<union> fst ` set (AList.update name (str v) client_settings)) = {}"
      using "2.prems"(3) d by (auto simp: AList.dom_update)
    with "2.hyps"(2) [OF refl False _ d(1)] "2.prems"(1) False
    show ?thesis by (simp add: AList_update_fresh [OF fresh(2)])
  qed
qed


text \<open>
  C7: the first loop of \<^verbatim>\<open>pgbench\<close> puts every option name into exactly one of the two
  dictionaries, the server settings when the name is in \<^verbatim>\<open>ALLOWED_SERVER_SETTINGS\<close> and
  the client settings otherwise; the two dictionaries together have the names of the
  options and no others.  The names of keyword arguments are distinct, and then each
  dictionary holds the options of its side in their order, with \<^verbatim>\<open>str\<close> of their values.
\<close>

theorem split_settings_partition:
  assumes "split_settings allowed str options ([], []) = (server_settings, client_settings)"
  shows "(\<forall>name \<in> fst ` set options.
            (name \<in> fst ` set server_settings) = (name \<in> allowed) \<and>
            (name \<in> fst ` set client_settings) = (name \<notin> allowed)) \<and>
         fst ` set server_settings \<union> fst ` set client_settings = fst ` set options \<and>
         fst ` set server_settings \<inter> fst ` set client_settings = {} \<and>
         (distinct (map fst options) \<longrightarrow>
            server_settings =
              map (\<lambda>(name, v). (name, str v)) (filter (\<lambda>(name, v). name \<in> allowed) options) \<and>
            client_settings =
              map (\<lambda>(name, v). (name, str v)) (filter (\<lambda>(name, v). name \<notin> allowed) options))"
proof -
  from split_settings_keys [OF assms]
  have k: "fst ` set server_settings = fst ` set options \<inter> allowed"
    "fst ` set client_settings = fst ` set options - allowed"
    by simp_all
  have l: "server_settings =
              map (\<lambda>(name, v). (name, str v)) (filter (\<lambda>(name, v). name \<in> allowed) options) \<and>
            client_settings =
              map (\<lambda>(name, v). (name, str v)) (filter (\<lambda>(name, v). name \<notin> allowed) options)"
    if "distinct (map fst options)"
    using split_settings_lists [OF assms that] by simp
  from k have "\<forall>name \<in> fst ` set options.
            (name \<in> fst ` set server_settings) = (name \<in> allowed) \<and>
            (name \<in> fst ` set client_settings) = (name \<notin> allowed)"
    by blast
  moreover from k have "fst ` set server_settings \<union> fst ` set client_settings = fst ` set options"
    by blast
  moreover from k have "fst ` set server_settings \<inter> fst ` set client_settings = {}"
    by blast
  ultimately show ?thesis using l by blast
qed

theorem split_settings_partition_witness:
  "split_settings {''max_wal_size'', ''shared_buffers''} (\<lambda>v. v)
     [(''shared_buffers'', ''128MB''), (''work_mem'', ''4MB''), (''max_wal_size'', ''1GB'')]
     ([], []) =
     ([(''shared_buffers'', ''128MB''), (''max_wal_size'', ''1GB'')], [(''work_mem'', ''4MB'')]) \<and>
   distinct (map fst
     [(''shared_buffers'', ''128MB''), (''work_mem'', ''4MB''), (''max_wal_size'', ''1GB'')]) \<and>
   fst ` set [(''shared_buffers'', ''128MB''), (''max_wal_size'', ''1GB'')] \<inter>
     fst ` set [(''work_mem'', ''4MB'')] = {} \<and>
   [(''work_mem'', ''4MB'')] =
     map (\<lambda>(name, v). (name, v))
       (filter (\<lambda>(name, v). name \<notin> {''max_wal_size'', ''shared_buffers''})
          [(''shared_buffers'', ''128MB''), (''work_mem'', ''4MB''), (''max_wal_size'', ''1GB'')])"
proof -
  let ?A = "{''max_wal_size'', ''shared_buffers''}"
  let ?O = "[(''shared_buffers'', ''128MB''), (''work_mem'', ''4MB''), (''max_wal_size'', ''1GB'')]"
  let ?S = "[(''shared_buffers'', ''128MB''), (''max_wal_size'', ''1GB'')]"
  let ?C = "[(''work_mem'', ''4MB'')]"
  have 1: "split_settings ?A (\<lambda>v. v) ?O ([], []) = (?S, ?C)" by simp
  have 2: "distinct (map fst ?O)" by simp
  note r = split_settings_partition [OF 1]
  note r3 = r [THEN conjunct2, THEN conjunct2, THEN conjunct1]
  note r4 = r [THEN conjunct2, THEN conjunct2, THEN conjunct2, THEN mp, OF 2, THEN conjunct2]
  show ?thesis by (intro conjI 1 2 r3 r4)
qed

text \<open>
  C8: when \<^verbatim>\<open>create_project\<close> returns, the request was answered with success, the
  identifier is the one of the answer, and the connection string is the DSN of the first
  role of the answer whose name is not \<^verbatim>\<open>web_access\<close>, followed by \<^verbatim>\<open>/main\<close>.
\<close>

theorem create_project_first_role:
  assumes "fst (create_project env settings w) = Inr (project_id, dsn)"
  shows "\<exists>response i.
           post_projects env = Returns response \<and> resp_ok response \<and>
           project_id = p_id (resp_json response) \<and>
           i < length (p_roles (resp_json response)) \<and>
           r_name (p_roles (resp_json response) ! i) \<noteq> ''web_access'' \<and>
           (\<forall>j<i. r_name (p_roles (resp_json response) ! j) = ''web_access'') \<and>
           dsn = r_dsn (p_roles (resp_json response) ! i) @ ''/main''"
proof -
  let ?P = "\<lambda>role. r_name role \<noteq> ''web_access''"
  from assms obtain response where r: "post_projects env = Returns response"
    by (cases "post_projects env") (simp_all add: create_project_def Let_def)
  with assms have ok: "resp_ok response"
    by (cases "resp_ok response") (simp_all add: create_project_def Let_def)
  let ?roles = "p_roles (resp_json response)"
  from assms r ok obtain role rest where
    f: "filter ?P ?roles = role # rest" and
    d: "dsn = r_dsn role @ ''/main''" and p: "project_id = p_id (resp_json response)"
    by (cases "filter ?P ?roles") (simp_all add: create_project_def Let_def)
  from f obtain us vs where
    u: "?roles = us @ role # vs" "\<forall>u \<in> set us. \<not> ?P u" "?P role"
    unfolding filter_eq_Cons_iff by blast
  have "length us < length ?roles" "?roles ! length us = role"
    "\<forall>j<length us. r_name (?roles ! j) = ''web_access''"
    using u by (simp_all add: nth_append)
  with r ok d p u(3) show ?thesis by blast
qed


theorem create_project_first_role_witness:
  "fst (create_project example_env [] world0) =
     Inr (''proj-1'', ''postgres://alice@host/main'') \<and>
   (\<exists>response i.
      post_projects example_env = Returns response \<and> resp_ok response \<and>
      ''proj-1'' = p_id (resp_json response) \<and>
      i < length (p_roles (resp_json response)) \<and>
      r_name (p_roles (resp_json response) ! i) \<noteq> ''web_access'' \<and>
      (\<forall>j<i. r_name (p_roles (resp_json response) ! j) = ''web_access'') \<and>
      ''postgres://alice@host/main'' = r_dsn (p_roles (resp_json response) ! i) @ ''/main'')"
proof -
  have 1: "fst (create_project example_env [] world0) =
     Inr (''proj-1'', ''postgres://alice@host/main'')"
    by (simp add: create_project_def example_env_def)
  from 1 create_project_first_role [OF 1] show ?thesis by (rule conjI)
qed

section \<open>The objective function: properties\<close>

lemma events_log [simp]: "events (log e w) = events w @ [e]"
  by (simp add: log_def)

lemma files_log [simp]: "files (log e w) = files w"
  by (simp add: log_def)

lemma events_unlink [simp]: "events (unlink p w) = events w @ [Unlink p]"
  by (simp add: unlink_def)

lemma files_unlink [simp]: "files (unlink p w) = (files w)(p := None)"
  by (simp add: unlink_def)

lemma events_open_write [simp]: "events (open_write p w) = events w @ [Open_write p]"
  by (simp add: open_write_def)

lemma files_open_write [simp]: "files (open_write p w) = (files w)(p \<mapsto> [])"
  by (simp add: open_write_def)

lemma events_prints [simp]:
  "events (foldl (\<lambda>w p. log (Print_output p) w) w ps) = events w @ map Print_output ps"
  by (induction ps arbitrary: w) simp_all

lemma files_prints [simp]: "files (foldl (\<lambda>w p. log (Print_output p) w) w ps) = files w"
  by (induction ps arbitrary: w) simp_all

lemma destroy_calls_append [simp]:
  "destroy_calls (xs @ ys) = destroy_calls xs @ destroy_calls ys"
  by (induction xs rule: destroy_calls.induct) simp_all

lemma provisioned_append [simp]: "provisioned (xs @ ys) = provisioned xs @ provisioned ys"
  by (induction xs rule: provisioned.induct) simp_all

lemma unlink_calls_append [simp]: "unlink_calls (xs @ ys) = unlink_calls xs @ unlink_calls ys"
  by (induction xs rule: unlink_calls.induct) simp_all

lemma calls_prints [simp]:
  "destroy_calls (map Print_output ps) = []" "provisioned (map Print_output ps) = []"
  "unlink_calls (map Print_output ps) = []"
  by (induction ps) simp_all

text \<open>What \<^verbatim>\<open>create_project\<close> and \<^verbatim>\<open>delete_project\<close> return does not depend on the world.\<close>

lemma create_project_fst: "fst (create_project env s w) = fst (create_project env s w')"
  by (simp add: create_project_def Let_def split: outcome.splits list.splits)

lemma delete_project_fst: "fst (delete_project env p w) = fst (delete_project env p w')"
  by (simp add: delete_project_def Let_def split: outcome.splits)

lemma create_project_world:
  "snd (create_project env s w) =
     (case fst (create_project env s w) of
        Inl e \<Rightarrow> log (Call_create s) w
      | Inr (p, d) \<Rightarrow> log (Return_create p) (log (Call_create s) w))"
  by (simp add: create_project_def Let_def split: outcome.splits list.splits)

lemma delete_project_world: "snd (delete_project env p w) = log (Call_delete p) w"
  by (simp add: delete_project_def Let_def split: outcome.splits)

lemma pgbench_try_fst:
  "fst (pgbench_try env dsn cs w) =
     (case checked (run_psql env) of
        Inl e \<Rightarrow> Inl e
      | Inr _ \<Rightarrow>
         (case checked (run_pgbench env) of
            Inl e \<Rightarrow> Inl e
          | Inr _ \<Rightarrow>
             (case snd (parse_pgbench_initialize_output (pgbench_stderr env)) of
                Inl e \<Rightarrow> Inl e
              | Inr timings \<Rightarrow>
                 (case timings ''total'' of None \<Rightarrow> Inl KeyError | Some t \<Rightarrow> Inr t))))"
  by (simp add: pgbench_try_def Let_def split: sum.splits option.splits prod.splits)

lemma pgbench_try_calls:
  "destroy_calls (events (snd (pgbench_try env dsn cs w))) = destroy_calls (events w)"
  "provisioned (events (snd (pgbench_try env dsn cs w))) = provisioned (events w)"
  "unlink_calls (events (snd (pgbench_try env dsn cs w))) = unlink_calls (events w)"
  by (simp_all add: pgbench_try_def Let_def split: sum.splits option.splits prod.splits)


lemma pgbench_unfold:
  assumes sc: "split_settings allowed str options ([], []) = (S, C)"
  shows "pgbench allowed str env options w =
    (case fst (create_project env S w) of
       Inl e \<Rightarrow> (Inl e, log (Call_create S) w)
     | Inr (p, d) \<Rightarrow>
        (let w1 = log (Return_create p) (log (Call_create S) w);
             r = fst (pgbench_try env d C w1);
             w2 = snd (pgbench_try env d C w1);
             w3 = (case r of Inl exc \<Rightarrow> log (Print_exc exc) w2 | Inr _ \<Rightarrow> w2);
             w4 = log (Call_delete p) w3
         in case fst (delete_project env p w) of
              Inl e \<Rightarrow> (Inl e, w4)
            | Inr _ \<Rightarrow>
               (Inr (case r of Inl _ \<Rightarrow> of_int TIMEOUT | Inr t \<Rightarrow> t),
                unlink ''stdout.txt'' (unlink ''stderr.txt'' w4))))"
proof (cases "fst (create_project env S w)")
  case (Inl e)
  with create_project_world [of env S w]
  have "create_project env S w = (Inl e, log (Call_create S) w)"
    by (cases "create_project env S w") simp
  with sc Inl show ?thesis by (simp add: pgbench_def)
next
  case (Inr pd)
  obtain p d where pd: "pd = (p, d)" by (cases pd)
  let ?w1 = "log (Return_create p) (log (Call_create S) w)"
  from Inr pd create_project_world [of env S w]
  have c: "create_project env S w = (Inr (p, d), ?w1)"
    by (cases "create_project env S w") simp
  obtain r w2 where t: "pgbench_try env d C ?w1 = (r, w2)"
    by (cases "pgbench_try env d C ?w1")
  let ?w3 = "case r of Inl exc \<Rightarrow> log (Print_exc exc) w2 | Inr _ \<Rightarrow> w2"
  have dl: "delete_project env p ?w3 = (fst (delete_project env p w), log (Call_delete p) ?w3)"
    using delete_project_fst [of env p ?w3 w] delete_project_world [of env p ?w3]
    by (cases "delete_project env p ?w3") simp
  show ?thesis
  proof (cases r)
    case (Inl exc)
    with sc Inr pd c t dl show ?thesis
      by (cases "fst (delete_project env p w)") (simp_all add: pgbench_def Let_def)
  next
    case r: (Inr v)
    with sc Inr pd c t dl show ?thesis
      by (cases "fst (delete_project env p w)") (simp_all add: pgbench_def Let_def)
  qed
qed


lemma pgbench_try_files:
  "checked (run_psql env) = Inr u \<Longrightarrow>
   files (snd (pgbench_try env dsn cs w)) =
     (files w)(''stderr.txt'' \<mapsto> pgbench_stderr env, ''stdout.txt'' \<mapsto> pgbench_stdout env)"
  by (simp add: pgbench_try_def Let_def split: sum.splits option.splits prod.splits)

lemma pgbench_calls:
  fixes allowed str env options w
  defines "X \<equiv> (case fst (create_project env
                      (fst (split_settings allowed str options ([], []))) w) of
                  Inl e \<Rightarrow> []
                | Inr (project_id, dsn) \<Rightarrow> [project_id])"
  shows "destroy_calls (events (snd (pgbench allowed str env options w))) =
           destroy_calls (events w) @ X"
    and "provisioned (events (snd (pgbench allowed str env options w))) =
           provisioned (events w) @ X"
proof -
  obtain S C where sc: "split_settings allowed str options ([], []) = (S, C)"
    by (cases "split_settings allowed str options ([], [])")
  show "destroy_calls (events (snd (pgbench allowed str env options w))) =
           destroy_calls (events w) @ X"
    unfolding X_def pgbench_unfold [OF sc] sc
    by (simp add: Let_def pgbench_try_calls split: sum.splits prod.splits)
  show "provisioned (events (snd (pgbench allowed str env options w))) =
           provisioned (events w) @ X"
    unfolding X_def pgbench_unfold [OF sc] sc
    by (simp add: Let_def pgbench_try_calls split: sum.splits prod.splits)
qed

lemma run_trials_calls:
  "destroy_calls (events w) = provisioned (events w) \<Longrightarrow>
   destroy_calls (events (snd (run_trials allowed str trials w))) =
     provisioned (events (snd (run_trials allowed str trials w)))"
proof (induction trials arbitrary: w)
  case Nil
  then show ?case by simp
next
  case (Cons trial trials)
  obtain env options where tr: "trial = (env, options)" by (cases trial)
  obtain r w1 where p: "pgbench allowed str env options w = (r, w1)"
    by (cases "pgbench allowed str env options w")
  from pgbench_calls [of allowed str env options w] p Cons.prems
  have inv: "destroy_calls (events w1) = provisioned (events w1)" by simp
  show ?case
  proof (cases r)
    case (Inl e)
    with tr p inv show ?thesis by simp
  next
    case (Inr y)
    from Cons.IH [OF inv] tr p Inr show ?thesis
      by (auto split: prod.splits sum.splits)
  qed
qed

text \<open>
  C3: a call of \<^verbatim>\<open>pgbench\<close> requests the deletion of exactly the project that its
  \<^verbatim>\<open>create_project\<close> call returned, once, whatever happens between the two, and of
  nothing when \<^verbatim>\<open>create_project\<close> raises; over a sequence of trials the projects whose
  deletion was requested are the projects that were created, in the same order and number.
\<close>

theorem destroy_once_per_provision:
  "destroy_calls (events (snd (pgbench allowed str env options w))) =
     destroy_calls (events w) @
       (case fst (create_project env (fst (split_settings allowed str options ([], []))) w) of
          Inl e \<Rightarrow> []
        | Inr (project_id, dsn) \<Rightarrow> [project_id]) \<and>
   provisioned (events (snd (pgbench allowed str env options w))) =
     provisioned (events w) @
       (case fst (create_project env (fst (split_settings allowed str options ([], []))) w) of
          Inl e \<Rightarrow> []
        | Inr (project_id, dsn) \<Rightarrow> [project_id]) \<and>
   (destroy_calls (events w) = provisioned (events w) \<longrightarrow>
      destroy_calls (events (snd (run_trials allowed str trials w))) =
        provisioned (events (snd (run_trials allowed str trials w))) \<and>
      length (destroy_calls (events (snd (run_trials allowed str trials w)))) =
        length (provisioned (events (snd (run_trials allowed str trials w)))))"
  using pgbench_calls [of allowed str env options w] run_trials_calls [of w allowed str trials]
  by simp


lemma pgbench_fst:
  "fst (pgbench allowed str env options w) =
     (case fst (create_project env (fst (split_settings allowed str options ([], []))) w) of
        Inl e \<Rightarrow> Inl e
      | Inr (project_id, dsn) \<Rightarrow>
         (case fst (delete_project env project_id w) of
            Inl e \<Rightarrow> Inl e
          | Inr _ \<Rightarrow>
             Inr (case fst (pgbench_try env dsn
                              (snd (split_settings allowed str options ([], [])))
                              (log (Return_create project_id)
                                 (log (Call_create
                                    (fst (split_settings allowed str options ([], [])))) w))) of
                    Inl _ \<Rightarrow> of_int TIMEOUT
                  | Inr t \<Rightarrow> t)))"
proof -
  obtain S C where sc: "split_settings allowed str options ([], []) = (S, C)"
    by (cases "split_settings allowed str options ([], [])")
  show ?thesis
    unfolding pgbench_unfold [OF sc] sc
    by (simp add: Let_def split: sum.splits prod.splits)
qed

text \<open>
  C1 as stated fails: when the remote call of \<^verbatim>\<open>create_project\<close> is refused, \<^verbatim>\<open>pgbench\<close>
  raises the \<^verbatim>\<open>RuntimeError\<close> of \<^verbatim>\<open>create_project\<close>, which is called before the \<^verbatim>\<open>try\<close>
  statement; it does not return the penalty.
\<close>

theorem pgbench_provision_failure_raises:
  "fst (pgbench {''shared_buffers''} (\<lambda>v. v) provision_failure_env
          [(''shared_buffers'', ''128MB''), (''work_mem'', ''4MB'')] world0) =
     Inl (RuntimeError (Cant_create [(''shared_buffers'', ''128MB'')] ''quota exceeded''))"
  by (simp add: pgbench_fst create_project_def provision_failure_env_def example_env_def)

text \<open>
  C1, amended: \<^verbatim>\<open>pgbench\<close> raises exactly when \<^verbatim>\<open>create_project\<close> or \<^verbatim>\<open>delete_project\<close>
  raises, and then it raises that exception.  Otherwise it returns: the parsed total
  when both subprocesses return 0 and the parser returns, and the penalty 200, the
  value of \<^verbatim>\<open>TIMEOUT\<close>, in every other case.
\<close>

theorem pgbench_result:
  "fst (pgbench allowed str env options w) =
     (case fst (create_project env (fst (split_settings allowed str options ([], []))) w) of
        Inl e \<Rightarrow> Inl e
      | Inr (project_id, dsn) \<Rightarrow>
         (case fst (delete_project env project_id w) of
            Inl e \<Rightarrow> Inl e
          | Inr _ \<Rightarrow>
             Inr (if run_psql env = Returns 0 \<and> run_pgbench env = Returns 0
                  then (case snd (parse_pgbench_initialize_output (pgbench_stderr env)) of
                          Inl e \<Rightarrow> 200
                        | Inr timings \<Rightarrow>
                           (case timings ''total'' of None \<Rightarrow> 200 | Some t \<Rightarrow> t))
                  else 200)))"
  unfolding pgbench_fst pgbench_try_fst
  by (simp add: TIMEOUT_def checked_def
      split: sum.splits prod.splits outcome.splits option.splits)


lemma example_created:
  "fst (create_project example_env s w) = Inr (''proj-1'', ''postgres://alice@host/main'')"
  "fst (create_project psql_failure_env s w) = Inr (''proj-1'', ''postgres://alice@host/main'')"
  "fst (create_project teardown_failure_env s w) =
     Inr (''proj-1'', ''postgres://alice@host/main'')"
  by (simp_all add: create_project_def example_env_def psql_failure_env_def
      teardown_failure_env_def)

lemma example_deleted:
  "fst (delete_project example_env p w) = Inr ''deleted''"
  "fst (delete_project psql_failure_env p w) = Inr ''deleted''"
  "fst (delete_project teardown_failure_env p w) =
     Inl (RuntimeError (Cant_delete p ''project is busy''))"
  by (simp_all add: delete_project_def example_env_def psql_failure_env_def
      teardown_failure_env_def)

lemma example_stderr_parse:
  "parse_pgbench_initialize_output (pgbench_stderr example_env) =
   ([], Inr [''total'' \<mapsto> 25 / 2, ''drop_tables'' \<mapsto> 1, ''create_tables'' \<mapsto> 2,
             ''server_side_generate'' \<mapsto> 33 / 4, ''vacuum'' \<mapsto> 3, ''primary_keys'' \<mapsto> 3 / 4])"
proof -
  have l: "splitlines (pgbench_stderr example_env) =
    [''creating tables...'',
     ''done in 12.50 s (drop tables 1.00 s, create tables 2.00 s, server-side generate 8.25 s, vacuum 3.00 s, primary keys 0.75 s).'']"
    unfolding example_env_def env.simps by code_simp
  show ?thesis
    by (simp only: parse_pgbench_initialize_output_def l full_report_groups
      list.case option.case last.simps if_True if_False list.distinct filter.simps list.map
      option.sel unpack_timings.simps float_examples option.distinct not_False_eq_True
      simp_thms)
qed

theorem pgbench_result_witness:
  "fst (pgbench {''shared_buffers''} (\<lambda>v. v) example_env [(''work_mem'', ''4MB'')] world0) =
     Inr (25 / 2) \<and>
   fst (pgbench {''shared_buffers''} (\<lambda>v. v) psql_failure_env [(''work_mem'', ''4MB'')] world0) =
     Inr 200"
proof -
  have 1: "fst (pgbench {''shared_buffers''} (\<lambda>v. v) example_env [(''work_mem'', ''4MB'')]
      world0) = Inr (25 / 2)"
    unfolding pgbench_result [of "{''shared_buffers''}" "\<lambda>v. v" example_env] example_created
      example_deleted example_stderr_parse
    by (simp add: example_env_def)
  have 2: "fst (pgbench {''shared_buffers''} (\<lambda>v. v) psql_failure_env [(''work_mem'', ''4MB'')]
      world0) = Inr 200"
    unfolding pgbench_result [of "{''shared_buffers''}" "\<lambda>v. v" psql_failure_env]
      example_created example_deleted
    by (simp add: psql_failure_env_def example_env_def)
  from 1 2 show ?thesis by (rule conjI)
qed

text \<open>
  C5 as stated fails: when the deletion is refused, \<^verbatim>\<open>pgbench\<close> does not return the
  measured score 12.5; the \<^verbatim>\<open>RuntimeError\<close> of \<^verbatim>\<open>delete_project\<close>, raised in the
  \<^verbatim>\<open>finally\<close> clause, replaces it.
\<close>

theorem pgbench_teardown_failure_raises:
  "fst (pgbench {''shared_buffers''} (\<lambda>v. v) teardown_failure_env
          [(''shared_buffers'', ''128MB'')] world0) =
     Inl (RuntimeError (Cant_delete ''proj-1'' ''project is busy''))"
  by (simp add: pgbench_fst example_created example_deleted)

text \<open>
  C5, amended: when \<^verbatim>\<open>create_project\<close> returned and \<^verbatim>\<open>delete_project\<close> raises, the
  exception of \<^verbatim>\<open>delete_project\<close> leaves \<^verbatim>\<open>pgbench\<close> in place of the trial result, and
  it ends a sequence of trials at that trial.
\<close>

theorem teardown_failure_propagates:
  assumes "fst (create_project env (fst (split_settings allowed str options ([], []))) w) =
             Inr (project_id, dsn)"
    and "fst (delete_project env project_id w) = Inl e"
  shows "fst (pgbench allowed str env options w) = Inl e \<and>
         fst (run_trials allowed str ((env, options) # trials) w) = Inl e"
proof -
  from assms have p: "fst (pgbench allowed str env options w) = Inl e"
    by (simp add: pgbench_fst)
  then obtain w1 where "pgbench allowed str env options w = (Inl e, w1)"
    by (cases "pgbench allowed str env options w") simp
  then have "fst (run_trials allowed str ((env, options) # trials) w) = Inl e" by simp
  with p show ?thesis by (rule conjI)
qed

theorem teardown_failure_propagates_witness:
  "fst (create_project teardown_failure_env
          (fst (split_settings {''shared_buffers''} (\<lambda>v. v) [(''work_mem'', ''4MB'')] ([], [])))
          world0) = Inr (''proj-1'', ''postgres://alice@host/main'') \<and>
   fst (delete_project teardown_failure_env ''proj-1'' world0) =
     Inl (RuntimeError (Cant_delete ''proj-1'' ''project is busy'')) \<and>
   fst (pgbench {''shared_buffers''} (\<lambda>v. v) teardown_failure_env [(''work_mem'', ''4MB'')]
          world0) = Inl (RuntimeError (Cant_delete ''proj-1'' ''project is busy'')) \<and>
   fst (run_trials {''shared_buffers''} (\<lambda>v. v)
          [(teardown_failure_env, [(''work_mem'', ''4MB'')]), (example_env, [])] world0) =
     Inl (RuntimeError (Cant_delete ''proj-1'' ''project is busy''))"
proof -
  note 1 = example_created(3) [of "fst (split_settings {''shared_buffers''} (\<lambda>v. v)
      [(''work_mem'', ''4MB'')] ([], []))" world0]
  note 2 = example_deleted(3) [of "''proj-1''" world0]
  note r = teardown_failure_propagates [OF 1 2, of "[(example_env, [])]"]
  show ?thesis by (intro conjI 1 2 r [THEN conjunct1] r [THEN conjunct2])
qed

text \<open>
  C6: the deletion is refused after a successful benchmark run.  \<^verbatim>\<open>delete_project\<close>
  raises in the \<^verbatim>\<open>finally\<close> clause before the two \<^verbatim>\<open>unlink\<close> calls, which are never
  made: both files are still there when \<^verbatim>\<open>pgbench\<close> is left.
\<close>

theorem pgbench_teardown_failure_leaves_files:
  "files (snd (pgbench {''shared_buffers''} (\<lambda>v. v) teardown_failure_env [] world0))
     ''stderr.txt'' = Some (pgbench_stderr teardown_failure_env) \<and>
   files (snd (pgbench {''shared_buffers''} (\<lambda>v. v) teardown_failure_env [] world0))
     ''stdout.txt'' = Some (pgbench_stdout teardown_failure_env) \<and>
   unlink_calls (events (snd (pgbench {''shared_buffers''} (\<lambda>v. v) teardown_failure_env []
     world0))) = []"
proof -
  have sc: "split_settings {''shared_buffers''} (\<lambda>v. v) [] ([], []) = ([], [])" by simp
  have ps: "checked (run_psql teardown_failure_env) = Inr ()"
    by (simp add: checked_def teardown_failure_env_def example_env_def)
  show ?thesis
    unfolding pgbench_unfold [OF sc] example_created example_deleted
    by (simp add: Let_def pgbench_try_files [OF ps] pgbench_try_calls world0_def
        split: sum.splits)
qed

text \<open>When \<^verbatim>\<open>delete_project\<close> returns, both \<^verbatim>\<open>unlink\<close> calls are made, once each, and
  neither file is left.\<close>

lemma pgbench_unlinks_after_teardown:
  assumes "fst (create_project env (fst (split_settings allowed str options ([], []))) w) =
             Inr (project_id, dsn)"
    and "fst (delete_project env project_id w) = Inr j"
  shows "unlink_calls (events (snd (pgbench allowed str env options w))) =
           unlink_calls (events w) @ [''stderr.txt'', ''stdout.txt''] \<and>
         files (snd (pgbench allowed str env options w)) ''stderr.txt'' = None \<and>
         files (snd (pgbench allowed str env options w)) ''stdout.txt'' = None"
proof -
  obtain S C where sc: "split_settings allowed str options ([], []) = (S, C)"
    by (cases "split_settings allowed str options ([], [])")
  from assms show ?thesis
    unfolding pgbench_unfold [OF sc] sc
    by (simp add: Let_def pgbench_try_calls split: sum.splits)
qed

text \<open>A run of four trials: the second fails in \<^verbatim>\<open>psql\<close>, the third ends the run because
  the deletion is refused; three projects were created and three deletions requested.\<close>

lemma run_trials_continue:
  assumes "fst (pgbench allowed str env options w) = Inr y"
  shows "snd (run_trials allowed str ((env, options) # trials) w) =
           snd (run_trials allowed str trials (snd (pgbench allowed str env options w)))"
  using assms
  by (cases "pgbench allowed str env options w") (auto split: prod.splits sum.splits)

lemma run_trials_stop:
  assumes "fst (pgbench allowed str env options w) = Inl e"
  shows "snd (run_trials allowed str ((env, options) # trials) w) =
           snd (pgbench allowed str env options w)"
  using assms by (cases "pgbench allowed str env options w") auto

lemma example_results:
  "fst (pgbench allowed str example_env options w) = Inr (25 / 2)"
  "fst (pgbench allowed str psql_failure_env options w) = Inr 200"
  "fst (pgbench allowed str teardown_failure_env options w) =
     Inl (RuntimeError (Cant_delete ''proj-1'' ''project is busy''))"
proof -
  show "fst (pgbench allowed str example_env options w) = Inr (25 / 2)"
    unfolding pgbench_fst pgbench_try_fst example_created example_deleted example_stderr_parse
    by (simp add: example_env_def checked_def)
  show "fst (pgbench allowed str psql_failure_env options w) = Inr 200"
    unfolding pgbench_fst pgbench_try_fst example_created example_deleted
    by (simp add: psql_failure_env_def example_env_def checked_def TIMEOUT_def)
  show "fst (pgbench allowed str teardown_failure_env options w) =
     Inl (RuntimeError (Cant_delete ''proj-1'' ''project is busy''))"
    unfolding pgbench_fst example_created example_deleted by simp
qed

lemma example_provisioned:
  "provisioned (events (snd (pgbench allowed str example_env options w))) =
     provisioned (events w) @ [''proj-1'']"
  "provisioned (events (snd (pgbench allowed str psql_failure_env options w))) =
     provisioned (events w) @ [''proj-1'']"
  "provisioned (events (snd (pgbench allowed str teardown_failure_env options w))) =
     provisioned (events w) @ [''proj-1'']"
  unfolding pgbench_calls(2) example_created by simp_all

lemma example_run_provisioned:
  "provisioned (events (snd (run_trials {''shared_buffers''} (\<lambda>v. v)
      [(example_env, [(''work_mem'', ''4MB'')]), (psql_failure_env, []),
       (teardown_failure_env, []), (example_env, [])] world0))) =
   [''proj-1'', ''proj-1'', ''proj-1'']"
  by (simp only: run_trials_continue [OF example_results(1)]
      run_trials_continue [OF example_results(2)] run_trials_stop [OF example_results(3)]
      example_provisioned)
    (simp add: world0_def)


theorem destroy_once_per_provision_witness:
  "destroy_calls (events world0) = provisioned (events world0) \<and>
   provisioned (events (snd (run_trials {''shared_buffers''} (\<lambda>v. v)
      [(example_env, [(''work_mem'', ''4MB'')]), (psql_failure_env, []),
       (teardown_failure_env, []), (example_env, [])] world0))) =
     [''proj-1'', ''proj-1'', ''proj-1''] \<and>
   destroy_calls (events (snd (run_trials {''shared_buffers''} (\<lambda>v. v)
      [(example_env, [(''work_mem'', ''4MB'')]), (psql_failure_env, []),
       (teardown_failure_env, []), (example_env, [])] world0))) =
     [''proj-1'', ''proj-1'', ''proj-1'']"
proof -
  have 1: "destroy_calls (events world0) = provisioned (events world0)"
    by (simp add: world0_def)
  note r = destroy_once_per_provision [of "{''shared_buffers''}" "\<lambda>v. v" example_env "[]"
      world0 "[(example_env, [(''work_mem'', ''4MB'')]), (psql_failure_env, []),
       (teardown_failure_env, []), (example_env, [])]", THEN conjunct2, THEN conjunct2,
      THEN mp, OF 1, THEN conjunct1]
  show ?thesis by (intro conjI 1 example_run_provisioned r [unfolded example_run_provisioned])
qed

end
